theory Spec2Isabelle
  imports Main "HOL-Library.Signed_Division" "HOL-Library.Word"
begin

text \<open>
  A model of the Roxy proxy: the key rotator, the response cache, model selection,
  the cache key, the administrative commands and the proxy handler, each function
  under the name it has in the source. The libraries the code calls (JSON, SHA-256,
  number formatting, the HTTP client, the random generator) and the upstream
  servers are parameters, gathered in \<open>Env\<close>. Requests are handled one at a time.
\<close>

section \<open>Time\<close>

text \<open>
  A \<open>time.Time\<close> is an instant, counted here in nanoseconds; a \<open>time.Duration\<close> is a
  number of nanoseconds held in an int64. \<open>Time.Sub\<close> saturates at the largest and
  smallest Duration, which is what makes the zero \<open>time.Time{}\<close> of a fresh key lie
  "more than a minute ago" at any realistic wall-clock reading.
\<close>

type_synonym Time = int
type_synonym Duration = int

definition maxDuration :: Duration where
  "maxDuration = 9223372036854775807"

definition minDuration :: Duration where
  "minDuration = - 9223372036854775808"

definition Minute :: Duration where
  "Minute = 60000000000"

definition Sub :: "Time \<Rightarrow> Time \<Rightarrow> Duration" where
  "Sub t u = (if t - u > maxDuration then maxDuration
              else if t - u < minDuration then minDuration else t - u)"

definition After :: "Time \<Rightarrow> Time \<Rightarrow> bool" where
  "After t u = (t > u)"

section \<open>Go's int\<close>

text \<open>
  An \<open>int\<close> of the rotator and of the configuration is a machine word, of 64 bits
  as on amd64 and arm64: \<open>+\<close> wraps around, and the order is the signed one
  (\<open><s\<close>, \<open>\<le>s\<close>; \<open>sint\<close> reads the value).
\<close>

type_synonym go_int = "64 word"

definition maxInt :: int where
  "maxInt = 9223372036854775807"

section \<open>Configuration (internal/config/config.go)\<close>

record APIKeyConfig =
  Key :: string
  KeyEnvVar :: string
  Provider :: string
  MaxRPM :: go_int
  MaxTPM :: go_int
  CooldownSec :: go_int

record ModelRule =
  SourceModel :: string
  TargetModels :: "string list"
  SelectionPolicy :: string

record ProviderConfig =
  OpenAI_BaseURL :: string
  Anthropic_BaseURL :: string
  OpenRouter_BaseURL :: string
  Chutes_BaseURL :: string

record Config =
  ListenAddr :: string
  APIKeys :: "APIKeyConfig list"
  ModelRules :: "ModelRule list"
  Providers :: ProviderConfig

section \<open>Key rotation (internal/rotation/rotator.go)\<close>

text \<open>
  \<open>KeyRotator.keys\<close> is a slice of pointers that only ever grows, so a \<open>*ApiKey\<close> is
  modelled by its position in the list. The rotator's \<open>lastUsed\<close> map is never read
  or written and is left out.
\<close>

record ApiKey =
  Config :: APIKeyConfig
  usageCount :: go_int
  lastUsed :: Time

type_synonym KeyRotator = "ApiKey list"

datatype error = NoAvailableKeys string

definition zeroTime :: Time where
  "zeroTime = 0"

definition NewKeyRotator :: "APIKeyConfig list \<Rightarrow> KeyRotator" where
  "NewKeyRotator configs =
     map (\<lambda>c. \<lparr>Config = c, usageCount = 0, lastUsed = zeroTime\<rparr>) configs"

text \<open>The body of one iteration of the scan in \<open>GetKey\<close>, up to the budget check.\<close>

definition resetIfElapsed :: "Time \<Rightarrow> ApiKey \<Rightarrow> ApiKey" where
  "resetIfElapsed now k =
     (if Sub now (lastUsed k) \<ge> Minute then k\<lparr>usageCount := 0\<rparr> else k)"

text \<open>
  The \<open>for _, key := range kr.keys\<close> loop: it returns the keys as the scan leaves them
  (every scanned key of the provider has gone through the reset) and the position of
  the key it returns, if any.
\<close>

fun scanKeys :: "Time \<Rightarrow> string \<Rightarrow> ApiKey list \<Rightarrow> ApiKey list \<times> nat option" where
  "scanKeys now provider [] = ([], None)"
| "scanKeys now provider (k # ks) =
     (if Provider (Config k) \<noteq> provider then
        (case scanKeys now provider ks of (ks', r) \<Rightarrow> (k # ks', map_option Suc r))
      else
        (let k' = resetIfElapsed now k in
         if usageCount k' <s MaxRPM (Config k') then (k' # ks, Some 0)
         else (case scanKeys now provider ks of (ks', r) \<Rightarrow> (k' # ks', map_option Suc r))))"

definition GetKey :: "Time \<Rightarrow> string \<Rightarrow> KeyRotator \<Rightarrow> KeyRotator \<times> (error + nat)" where
  "GetKey now provider kr =
     (case scanKeys now provider kr of
        (kr', Some i) \<Rightarrow> (kr', Inr i)
      | (kr', None) \<Rightarrow> (kr', Inl (NoAvailableKeys provider)))"

text \<open>\<open>key.usageCount++\<close> is the addition of the machine word: it wraps around.\<close>

definition ReportUsage :: "Time \<Rightarrow> nat \<Rightarrow> go_int \<Rightarrow> KeyRotator \<Rightarrow> KeyRotator" where
  "ReportUsage now key tokens kr =
     (if key < length kr
      then kr[key := (kr ! key)\<lparr>usageCount := usageCount (kr ! key) + 1, lastUsed := now\<rparr>]
      else kr)"

text \<open>
  Modelled from the spec: \<open>KeyRotator.AddKey\<close> is called by the command handler but
  is not defined in rotator.go; the spec's \<open>add(credential)\<close> "appends a new
  credential".
\<close>

definition AddKey :: "APIKeyConfig \<Rightarrow> KeyRotator \<Rightarrow> KeyRotator" where
  "AddKey c kr = kr @ [\<lparr>Config = c, usageCount = 0, lastUsed = zeroTime\<rparr>]"

text \<open>
  A key has budget left at \<open>now\<close> when, after the reset the scan would apply to it, its
  counter is below its requests-per-minute limit.
\<close>

definition eligible :: "Time \<Rightarrow> string \<Rightarrow> ApiKey \<Rightarrow> bool" where
  "eligible now provider k =
     (Provider (Config k) = provider \<and>
      usageCount (resetIfElapsed now k) <s MaxRPM (Config k))"

section \<open>Response cache\<close>

record CacheEntry =
  Data :: string
  ExpiresAt :: Time

record Cache =
  entries :: "string \<rightharpoonup> CacheEntry"
  ttl :: Duration

definition New :: "Duration \<Rightarrow> Cache" where
  "New d = \<lparr>entries = Map.empty, ttl = d\<rparr>"

definition Get :: "Time \<Rightarrow> string \<Rightarrow> Cache \<Rightarrow> string option" where
  "Get now key c =
     (case entries c key of
        None \<Rightarrow> None
      | Some entry \<Rightarrow> if After now (ExpiresAt entry) then None else Some (Data entry))"

definition Set_entry :: "Time \<Rightarrow> string \<Rightarrow> string \<Rightarrow> Cache \<Rightarrow> Cache" where
  "Set_entry now key data c =
     c\<lparr>entries := (entries c)(key \<mapsto> \<lparr>Data = data, ExpiresAt = now + ttl c\<rparr>)\<rparr>"

section \<open>Requests, responses and the world outside (internal/proxy/server.go)\<close>

record ChatMessage =
  Role :: string
  Content :: string

text \<open>A \<open>float64\<close> is kept as its 64 bits; the code only ever formats it.\<close>

type_synonym float64 = "64 word"

record LLMRequest =
  Model :: string
  Messages :: "ChatMessage list"
  Prompt :: string
  MaxTokens :: int
  Temperature :: float64

text \<open>
  The inbound \<open>*http.Request\<close>: \<open>Body\<close> is what \<open>io.ReadAll(r.Body)\<close> yields,
  \<open>None\<close> when reading fails.
\<close>

record Request =
  Method :: string
  Header :: "(string \<times> string) list"
  Body :: "string option"

text \<open>
  The request sent upstream: the copied inbound headers, and the authentication header
  set on top of them.
\<close>

record ProxyRequest =
  ReqMethod :: string
  URL :: string
  ReqHeader :: "(string \<times> string) list"
  Auth :: "(string \<times> string) option"
  Payload :: string

text \<open>
  An upstream \<open>*http.Response\<close>: \<open>RespBody\<close> is what \<open>io.ReadAll(resp.Body)\<close> yields
  (\<open>None\<close> for a read error), \<open>AfterClose\<close> what it yields once the body has been closed.
\<close>

record Response =
  StatusCode :: int
  RespBody :: "string option"
  AfterClose :: "string option"

definition closeBody :: "Response \<Rightarrow> Response" where
  "closeBody resp = resp\<lparr>RespBody := AfterClose resp\<rparr>"

text \<open>
  The result of \<open>client.Do\<close>: a response with a nil error, or an error, with which the
  response is nil or (a failed redirect) a response whose body is already closed.
\<close>

datatype DoResult = DoOK Response | DoErr "Response option"

text \<open>
  What the handler writes to the caller: a status and a body, or nothing when the
  goroutine panics.
\<close>

datatype outcome = Responded int string | Panicked

definition http_Error :: "string \<Rightarrow> int \<Rightarrow> outcome" where
  "http_Error msg code = Responded code (msg @ [CHR 0x0A])"

text \<open>
  The library functions and the upstream servers are parameters of the model.
  \<open>json_Unmarshal\<close> and \<open>json_Marshal\<close> return \<open>None\<close> for an error; \<open>sha256_hex\<close>
  is the hexadecimal SHA-256 digest of the bytes written; \<open>sprintf_f\<close> is
  \<open>fmt.Sprintf("%f", _)\<close>; \<open>http_NewRequest method url\<close> tells whether
  \<open>http.NewRequest\<close> succeeds; \<open>client_Do n req\<close> is what the \<open>n\<close>-th upstream call
  of the process returns for \<open>req\<close> and how long it takes.
\<close>

record Env =
  json_Unmarshal :: "string \<Rightarrow> LLMRequest option"
  json_Marshal :: "LLMRequest \<Rightarrow> string option"
  sha256_hex :: "string \<Rightarrow> string"
  sprintf_f :: "float64 \<Rightarrow> string"
  rand_Intn :: "int \<Rightarrow> int"
  http_NewRequest :: "string \<Rightarrow> string \<Rightarrow> bool"
  client_Do :: "nat \<Rightarrow> ProxyRequest \<Rightarrow> DoResult \<times> Duration"
  strings_TrimSpace :: "string \<Rightarrow> string"
  strings_Fields :: "string \<Rightarrow> string list"

text \<open>
  Events that the model records and never reads: a key handed out by \<open>GetKey\<close>, a
  key passed to \<open>ReportUsage\<close>.
\<close>

datatype key_event = Granted nat | Charged nat

text \<open>
  The \<open>Server\<close> with its rotator and cache, the wall clock, and two logs that the code
  does not have: the upstream requests sent so far and the key events so far.
  Computation takes no time; the clock moves during an upstream call.
\<close>

record Server =
  cfg :: Config
  rotator :: KeyRotator
  modelCounters :: "string \<rightharpoonup> int"
  cache :: Cache
  clock :: Time
  sent :: "ProxyRequest list"
  ledger :: "key_event list"

definition NewServer :: "Config \<Rightarrow> Time \<Rightarrow> Server" where
  "NewServer c t0 =
     \<lparr>cfg = c, rotator = NewKeyRotator (APIKeys c), modelCounters = Map.empty,
      cache = New (5 * Minute), clock = t0, sent = [], ledger = []\<rparr>"

definition GetKeyS :: "string \<Rightarrow> Server \<Rightarrow> Server \<times> (error + nat)" where
  "GetKeyS provider s =
     (case GetKey (clock s) provider (rotator s) of
        (kr, Inr key) \<Rightarrow> (s\<lparr>rotator := kr, ledger := ledger s @ [Granted key]\<rparr>, Inr key)
      | (kr, Inl err) \<Rightarrow> (s\<lparr>rotator := kr\<rparr>, Inl err))"

definition ReportUsageS :: "nat \<Rightarrow> go_int \<Rightarrow> Server \<Rightarrow> Server" where
  "ReportUsageS key tokens s =
     s\<lparr>rotator := ReportUsage (clock s) key tokens (rotator s),
       ledger := ledger s @ [Charged key]\<rparr>"

definition DoS :: "Env \<Rightarrow> ProxyRequest \<Rightarrow> Server \<Rightarrow> DoResult \<times> Server" where
  "DoS E req s =
     (case client_Do E (length (sent s)) req of
        (res, dt) \<Rightarrow> (res, s\<lparr>clock := clock s + dt, sent := sent s @ [req]\<rparr>))"

section \<open>Model selection\<close>

definition HasPrefix :: "string \<Rightarrow> string \<Rightarrow> bool" where
  "HasPrefix s p = (take (length p) s = p)"

definition getProviderForModel :: "string \<Rightarrow> string" where
  "getProviderForModel model =
     (if HasPrefix model ''gpt-'' then ''openai''
      else if HasPrefix model ''claude-'' then ''anthropic''
      else if HasPrefix model ''openrouter/'' then ''openrouter''
      else if HasPrefix model ''chutes/'' then ''chutes''
      else ''openai'')"

text \<open>Indexing a slice: \<open>None\<close> is the index-out-of-range panic.\<close>

definition index :: "'a list \<Rightarrow> int \<Rightarrow> 'a option" where
  "index xs i = (if 0 \<le> i \<and> i < int (length xs) then Some (xs ! nat i) else None)"

text \<open>
  \<open>getNextModelIndex\<close>: a missing counter reads as 0; \<open>%\<close> is Go's truncated
  remainder, and panics (\<open>None\<close>) on a zero divisor before anything is stored.
\<close>

definition getNextModelIndex :: "string \<Rightarrow> int \<Rightarrow> Server \<Rightarrow> Server \<times> int option" where
  "getNextModelIndex model total' s =
     (if total' = 0 then (s, None)
      else
        (let current = (case modelCounters s model of None \<Rightarrow> 0 | Some c \<Rightarrow> c);
             next = (current + 1) smod total'
         in (s\<lparr>modelCounters := (modelCounters s)(model \<mapsto> next)\<rparr>, Some next)))"

text \<open>The \<open>fallback\<close> case of \<open>getTargetModel\<close>: the loop over the rule's targets.\<close>

fun tryFallback :: "string list \<Rightarrow> Server \<Rightarrow> Server \<times> (string \<times> string) option" where
  "tryFallback [] s = (s, None)"
| "tryFallback (model # models) s =
     (let provider = getProviderForModel model in
      case GetKeyS provider s of
        (s', Inr key) \<Rightarrow> (ReportUsageS key 0 s', Some (model, provider))
      | (s', Inl err) \<Rightarrow> tryFallback models s')"

text \<open>
  The loop over the rules in \<open>getTargetModel\<close>; \<open>None\<close> is a panic (\<open>rand.Intn\<close> of
  a non-positive number, a zero divisor, an index out of range). A rule whose policy
  is none of the three, or whose fallback finds no key, lets the loop go on.
\<close>

fun applyRules ::
  "Env \<Rightarrow> string \<Rightarrow> ModelRule list \<Rightarrow> Server \<Rightarrow> Server \<times> (string \<times> string) option" where
  "applyRules E sourceModel [] s = (s, Some (sourceModel, getProviderForModel sourceModel))"
| "applyRules E sourceModel (rule # rules) s =
     (if SourceModel rule = sourceModel then
        (if SelectionPolicy rule = ''random'' then
           (let n = int (length (TargetModels rule)) in
            if n \<le> 0 then (s, None)
            else (case index (TargetModels rule) (rand_Intn E n) of
                    None \<Rightarrow> (s, None)
                  | Some model \<Rightarrow> (s, Some (model, getProviderForModel model))))
         else if SelectionPolicy rule = ''roundrobin'' then
           (case getNextModelIndex sourceModel (int (length (TargetModels rule))) s of
              (s', None) \<Rightarrow> (s', None)
            | (s', Some idx) \<Rightarrow>
                (case index (TargetModels rule) idx of
                   None \<Rightarrow> (s', None)
                 | Some model \<Rightarrow> (s', Some (model, getProviderForModel model))))
         else if SelectionPolicy rule = ''fallback'' then
           (case tryFallback (TargetModels rule) s of
              (s', Some r) \<Rightarrow> (s', Some r)
            | (s', None) \<Rightarrow> applyRules E sourceModel rules s')
         else applyRules E sourceModel rules s)
      else applyRules E sourceModel rules s)"

definition getTargetModel :: "Env \<Rightarrow> string \<Rightarrow> Server \<Rightarrow> Server \<times> (string \<times> string) option" where
  "getTargetModel E sourceModel s = applyRules E sourceModel (ModelRules (cfg s)) s"

section \<open>Cache key\<close>

definition digit :: "nat \<Rightarrow> char" where
  "digit n = char_of (48 + n)"

function natToDec :: "nat \<Rightarrow> string" where
  "natToDec n = (if n < 10 then [digit n] else natToDec (n div 10) @ [digit (n mod 10)])"
  by pat_completeness auto
termination
  by (relation "measure id") auto

declare natToDec.simps [simp del]

text \<open>\<open>fmt.Sprintf("%d", _)\<close>.\<close>

definition sprintf_d :: "int \<Rightarrow> string" where
  "sprintf_d i = (if i < 0 then CHR ''-'' # natToDec (nat (- i)) else natToDec (nat i))"

text \<open>The bytes that \<open>generateCacheKey\<close> writes to the hash, in the order it writes them.\<close>

definition hashInput :: "Env \<Rightarrow> LLMRequest \<Rightarrow> string" where
  "hashInput E req =
     Model req @ concat (map (\<lambda>msg. Role msg @ Content msg) (Messages req))
       @ sprintf_d (MaxTokens req) @ sprintf_f E (Temperature req)"

definition generateCacheKey :: "Env \<Rightarrow> LLMRequest \<Rightarrow> string" where
  "generateCacheKey E req = sha256_hex E (hashInput E req)"

section \<open>Administrative commands\<close>

definition handleAddCommand :: "string list \<Rightarrow> Server \<Rightarrow> Server \<times> outcome" where
  "handleAddCommand args s =
     (if length args < 3 \<or> args ! 0 \<noteq> ''key'' then
        (s, http_Error ''Usage: #roxy add key [provider] [key]'' 400)
      else
        (let provider = args ! 1;
             key = args ! 2;
             newKey = \<lparr>Key = key, KeyEnvVar = [], Provider = provider, MaxRPM = 1000,
                       MaxTPM = 100000, CooldownSec = 0\<rparr>
         in (s\<lparr>cfg := (cfg s)\<lparr>APIKeys := APIKeys (cfg s) @ [newKey]\<rparr>,
               rotator := AddKey newKey (rotator s)\<rparr>,
             Responded 200 (''Added key for provider: '' @ provider))))"

text \<open>
  The listing loop: \<open>key.Key[:4]\<close> panics (\<open>None\<close>) on a key shorter than four bytes.
\<close>

fun listKeys :: "APIKeyConfig list \<Rightarrow> string option" where
  "listKeys [] = Some []"
| "listKeys (key # keys) =
     (if length (Key key) < 4 then None
      else (case listKeys keys of
              None \<Rightarrow> None
            | Some out \<Rightarrow>
                Some (''Provider: '' @ Provider key @ '', Key: '' @ take 4 (Key key)
                      @ ''...'' @ [CHR 0x0A] @ out)))"

definition handleListCommand :: "string list \<Rightarrow> Server \<Rightarrow> Server \<times> outcome" where
  "handleListCommand args s =
     (if length args < 1 \<or> args ! 0 \<noteq> ''keys'' then
        (s, http_Error ''Usage: #roxy list keys'' 400)
      else (case listKeys (APIKeys (cfg s)) of
              None \<Rightarrow> (s, Panicked)
            | Some out \<Rightarrow> (s, Responded 200 out)))"

definition helpText :: string where
  "helpText = ''Available commands:'' @ [CHR 0x0A]
     @ ''#roxy add key [provider] [key] - Add new API key'' @ [CHR 0x0A]
     @ ''#roxy list keys - List configured API keys'' @ [CHR 0x0A]
     @ ''#roxy help - Show this help message''"

definition handleHelpCommand :: "Server \<Rightarrow> Server \<times> outcome" where
  "handleHelpCommand s = (s, Responded 200 helpText)"

definition handleCommand :: "Env \<Rightarrow> string \<Rightarrow> Server \<Rightarrow> Server \<times> outcome" where
  "handleCommand E body s =
     (let cmd = strings_TrimSpace E body;
          parts = strings_Fields E cmd
      in if length parts < 2 then (s, http_Error ''Invalid command format'' 400)
         else if parts ! 1 = ''add'' then handleAddCommand (drop 2 parts) s
         else if parts ! 1 = ''list'' then handleListCommand (drop 2 parts) s
         else if parts ! 1 = ''help'' then handleHelpCommand s
         else (s, http_Error ''Unknown command'' 400))"

section \<open>The proxy handler\<close>

text \<open>The two \<open>switch\<close> statements on the provider: the target URL and the header.\<close>

definition providerURL :: "Config \<Rightarrow> string \<Rightarrow> string option" where
  "providerURL c provider =
     (if provider = ''openai'' then Some (OpenAI_BaseURL (Providers c) @ ''/chat/completions'')
      else if provider = ''anthropic'' then Some (Anthropic_BaseURL (Providers c) @ ''/complete'')
      else None)"

definition authHeader :: "string \<Rightarrow> string \<Rightarrow> (string \<times> string) option" where
  "authHeader provider secret =
     (if provider = ''openai'' then Some (''Authorization'', ''Bearer '' @ secret)
      else if provider = ''anthropic'' then Some (''X-Api-Key'', secret)
      else None)"

definition proxyReq :: "Request \<Rightarrow> string \<Rightarrow> string \<Rightarrow> string \<Rightarrow> string \<Rightarrow> ProxyRequest" where
  "proxyReq r targetURL provider secret modifiedBody =
     \<lparr>ReqMethod = Method r, URL = targetURL, ReqHeader = Header r,
      Auth = authHeader provider secret, Payload = modifiedBody\<rparr>"

text \<open>
  The inner loop of the fallback chain, over the targets from position 1 on. It
  carries \<open>req\<close> (whose model each round overwrites) and \<open>resp\<close> (\<open>None\<close> is nil) and
  ends with \<open>Inl\<close> when the handler returns from inside the loop, with \<open>Inr resp\<close> when
  the loop is left. In the loop the target URL of a provider other than the two
  known ones stays the empty string. No key acquired here is passed to
  \<open>ReportUsage\<close>.
\<close>

fun fallbackLoop ::
  "Env \<Rightarrow> Request \<Rightarrow> LLMRequest \<Rightarrow> string list \<Rightarrow> Response option \<Rightarrow> Server
     \<Rightarrow> Server \<times> (outcome + Response option)" where
  "fallbackLoop E r req [] resp s = (s, Inr resp)"
| "fallbackLoop E r req (nextModel # rest) resp s =
     (let nextProvider = getProviderForModel nextModel in
      case GetKeyS nextProvider s of
        (s1, Inl err) \<Rightarrow> fallbackLoop E r req rest resp s1
      | (s1, Inr nextKey) \<Rightarrow>
          (let req' = req\<lparr>Model := nextModel\<rparr> in
           case json_Marshal E req' of
             None \<Rightarrow> (s1, Inl (http_Error ''Failed to prepare request'' 500))
           | Some modifiedBody \<Rightarrow>
               (let targetURL = (case providerURL (cfg s1) nextProvider of
                                   Some u \<Rightarrow> u | None \<Rightarrow> [])
                in if \<not> http_NewRequest E (Method r) targetURL
                   then fallbackLoop E r req' rest resp s1
                   else
                     (case DoS E (proxyReq r targetURL nextProvider
                                    (Key (Config (rotator s1 ! nextKey))) modifiedBody) s1 of
                        (DoOK resp', s2) \<Rightarrow>
                          if StatusCode resp' = 200 then (s2, Inr (Some resp'))
                          else fallbackLoop E r req' rest (Some (closeBody resp')) s2
                      | (DoErr resp', s2) \<Rightarrow>
                          fallbackLoop E r req' rest (map_option closeBody resp') s2))))"

text \<open>
  From "Cache and return the response" to the end of the handler: a nil \<open>resp\<close> is a
  nil dereference.
\<close>

definition finish :: "string \<Rightarrow> Response option \<Rightarrow> Server \<Rightarrow> Server \<times> outcome" where
  "finish cacheKey resp s =
     (case resp of
        None \<Rightarrow> (s, Panicked)
      | Some rs \<Rightarrow>
          (case RespBody rs of
             None \<Rightarrow> (s, http_Error ''Failed to read response'' 500)
           | Some respBody \<Rightarrow>
               ((if StatusCode rs = 200
                 then s\<lparr>cache := Set_entry (clock s) cacheKey respBody (cache s)\<rparr> else s),
                Responded (StatusCode rs) respBody)))"

text \<open>
  The handler from "Modify request for target model" on, without the deferred
  \<open>ReportUsage\<close>. The rule of the fallback chain is looked up under \<open>req.Model\<close>, which
  by then holds the target model.
\<close>

definition proxyWithKey ::
  "Env \<Rightarrow> Request \<Rightarrow> LLMRequest \<Rightarrow> string \<Rightarrow> string \<Rightarrow> string \<Rightarrow> nat \<Rightarrow> Server
     \<Rightarrow> Server \<times> outcome" where
  "proxyWithKey E r req0 cacheKey targetModel provider key s =
     (let req = req0\<lparr>Model := targetModel\<rparr> in
      case json_Marshal E req of
        None \<Rightarrow> (s, http_Error ''Failed to prepare request'' 500)
      | Some modifiedBody \<Rightarrow>
          (case providerURL (cfg s) provider of
             None \<Rightarrow> (s, http_Error ''Unsupported provider'' 400)
           | Some targetURL \<Rightarrow>
               if \<not> http_NewRequest E (Method r) targetURL
               then (s, http_Error ''Failed to create provider request'' 500)
               else
                 (case DoS E (proxyReq r targetURL provider
                                (Key (Config (rotator s ! key))) modifiedBody) s of
                    (DoErr resp, s1) \<Rightarrow> (s1, http_Error ''Provider request failed'' 502)
                  | (DoOK resp, s1) \<Rightarrow>
                      if StatusCode resp = 429 then
                        (case find (\<lambda>rule. SourceModel rule = Model req
                                      \<and> SelectionPolicy rule = ''fallback'')
                                (ModelRules (cfg s1)) of
                           None \<Rightarrow> finish cacheKey (Some resp) s1
                         | Some rule \<Rightarrow>
                             (case fallbackLoop E r req (drop 1 (TargetModels rule))
                                     (Some resp) s1 of
                                (s2, Inl out) \<Rightarrow> (s2, out)
                              | (s2, Inr resp') \<Rightarrow> finish cacheKey resp' s2))
                      else finish cacheKey (Some resp) s1)))"

definition handleProxy :: "Env \<Rightarrow> Request \<Rightarrow> Server \<Rightarrow> Server \<times> outcome" where
  "handleProxy E r s =
     (case Body r of
        None \<Rightarrow> (s, http_Error ''Failed to read request body'' 400)
      | Some body \<Rightarrow>
          if HasPrefix body ''#roxy'' then handleCommand E body s
          else
            (case json_Unmarshal E body of
               None \<Rightarrow> (s, http_Error ''Invalid request format'' 400)
             | Some req \<Rightarrow>
                 (let cacheKey = generateCacheKey E req in
                  case Get (clock s) cacheKey (cache s) of
                    Some cached \<Rightarrow> (s, Responded 200 cached)
                  | None \<Rightarrow>
                      (case getTargetModel E (Model req) s of
                         (s1, None) \<Rightarrow> (s1, Panicked)
                       | (s1, Some (targetModel, provider)) \<Rightarrow>
                           (case GetKeyS provider s1 of
                              (s2, Inl err) \<Rightarrow> (s2, http_Error ''No available API keys'' 429)
                            | (s2, Inr key) \<Rightarrow>
                                (case proxyWithKey E r req cacheKey targetModel provider key s2 of
                                   (s3, out) \<Rightarrow> (ReportUsageS key 0 s3, out)))))))"

section \<open>Runs of several operations, and what the statements speak of\<close>

text \<open>\<open>n\<close> resolutions of the same source model, one after the other.\<close>

fun resolveSeq :: "Env \<Rightarrow> string \<Rightarrow> nat \<Rightarrow> Server \<Rightarrow> (string \<times> string) option list" where
  "resolveSeq E sourceModel 0 s = []"
| "resolveSeq E sourceModel (Suc n) s =
     (case getTargetModel E sourceModel s of
        (s', res) \<Rightarrow> res # resolveSeq E sourceModel n s')"

text \<open>The cursor of a source model as \<open>getNextModelIndex\<close> reads it.\<close>

definition cursor :: "Server \<Rightarrow> string \<Rightarrow> int" where
  "cursor s model = (case modelCounters s model of None \<Rightarrow> 0 | Some c \<Rightarrow> c)"

text \<open>
  The two operations of the rotator as a caller may issue them, each at its own
  clock reading, and a run of them.
\<close>

datatype rotator_op = Acquire Time string | Release Time nat

fun applyOp :: "rotator_op \<Rightarrow> KeyRotator \<Rightarrow> KeyRotator" where
  "applyOp (Acquire now provider) kr = fst (GetKey now provider kr)"
| "applyOp (Release now key) kr = ReportUsage now key 0 kr"

definition runOps :: "rotator_op list \<Rightarrow> KeyRotator \<Rightarrow> KeyRotator" where
  "runOps ops kr = foldl (\<lambda>kr' op. applyOp op kr') kr ops"

text \<open>
  An acquire followed, when it grants a key, by the release of that key: the pattern
  of \<open>TestRateLimiting\<close> and of the deferred \<open>ReportUsage\<close> of the handler.
\<close>

definition cycle :: "Time \<times> string \<times> Time \<Rightarrow> KeyRotator \<Rightarrow> KeyRotator" where
  "cycle c kr =
     (case c of (acquired, provider, released) \<Rightarrow>
        (case GetKey acquired provider kr of
           (kr', Inr key) \<Rightarrow> ReportUsage released key 0 kr'
         | (kr', Inl err) \<Rightarrow> kr'))"

definition runCycles :: "(Time \<times> string \<times> Time) list \<Rightarrow> KeyRotator \<Rightarrow> KeyRotator" where
  "runCycles cs kr = foldl (\<lambda>kr' c. cycle c kr') kr cs"

definition withinBudget :: "KeyRotator \<Rightarrow> bool" where
  "withinBudget kr =
     list_all (\<lambda>k. 0 \<le>s usageCount k \<and> usageCount k \<le>s MaxRPM (Config k)) kr"

text \<open>The limits that \<open>validate\<close> accepts are positive; non-negative is all that is used.\<close>

definition budgets :: "KeyRotator \<Rightarrow> bool" where
  "budgets kr = list_all (\<lambda>k. 0 \<le>s MaxRPM (Config k)) kr"

text \<open>The position that the \<open>i\<close>-th resolution from cursor \<open>c\<close> returns, out of \<open>n\<close>.\<close>

definition visited :: "int \<Rightarrow> nat \<Rightarrow> nat \<Rightarrow> nat" where
  "visited c n i = (nat c + i) mod n"

text \<open>
  Requests handled one after the other, each arriving at its own clock reading.
\<close>

fun serve :: "Env \<Rightarrow> (Time \<times> Request) list \<Rightarrow> Server \<Rightarrow> Server" where
  "serve E [] s = s"
| "serve E (a # rest) s = serve E rest (fst (handleProxy E (snd a) (s\<lparr>clock := fst a\<rparr>)))"

text \<open>The keys charged in a ledger, in order.\<close>

definition charges :: "key_event list \<Rightarrow> nat list" where
  "charges l = concat (map (\<lambda>e. case e of Charged k \<Rightarrow> [k] | Granted k \<Rightarrow> []) l)"

text \<open>A rotator that differs from another only by counters set back to zero.\<close>

definition onlyResets :: "KeyRotator \<Rightarrow> KeyRotator \<Rightarrow> bool" where
  "onlyResets kr kr' =
     (length kr' = length kr
      \<and> (\<forall>j<length kr. kr' ! j = kr ! j \<or> kr' ! j = (kr ! j)\<lparr>usageCount := 0\<rparr>))"

text \<open>
  What a step leaves alone: the configuration, the cache, the charges so far, and
  the keys but for counters set back to zero.
\<close>

definition sameBooks :: "Server \<Rightarrow> Server \<Rightarrow> bool" where
  "sameBooks s s' =
     (cfg s' = cfg s \<and> cache s' = cache s \<and> charges (ledger s') = charges (ledger s)
      \<and> onlyResets (rotator s) (rotator s'))"

section \<open>Fixtures (configs/config.example.yaml, internal/testutils/mocks.go)\<close>

definition Second :: Duration where
  "Second = 1000000000"

text \<open>A wall-clock reading of the year 2026, in nanoseconds since the zero time.\<close>

definition T0 :: Time where
  "T0 = 63900000000000000000"

definition apiKey :: "string \<Rightarrow> string \<Rightarrow> go_int \<Rightarrow> go_int \<Rightarrow> APIKeyConfig" where
  "apiKey provider secret rpm tpm =
     \<lparr>Key = secret, KeyEnvVar = [], Provider = provider, MaxRPM = rpm, MaxTPM = tpm,
      CooldownSec = 60\<rparr>"

definition exampleProviders :: ProviderConfig where
  "exampleProviders =
     \<lparr>OpenAI_BaseURL = ''https://api.openai.com/v1'',
      Anthropic_BaseURL = ''https://api.anthropic.com/v1'',
      OpenRouter_BaseURL = ''https://openrouter.ai/api/v1'',
      Chutes_BaseURL = ''https://api.chutesai.com/v1''\<rparr>"

definition exampleConfig :: Config where
  "exampleConfig =
     \<lparr>ListenAddr = '':8080'',
      APIKeys =
        [apiKey ''openai'' ''sk-openai-1'' 3500 90000,
         apiKey ''openai'' ''sk-openai-2'' 3500 90000,
         apiKey ''anthropic'' ''sk-anthropic-1'' 10000 100000,
         apiKey ''openrouter'' ''sk-openrouter'' 5000 100000,
         apiKey ''chutes'' ''sk-chutes'' 5000 100000],
      ModelRules =
        [\<lparr>SourceModel = ''gpt-4'', TargetModels = [''gpt-4'', ''claude-2''],
          SelectionPolicy = ''fallback''\<rparr>,
         \<lparr>SourceModel = ''gpt-3.5-turbo'',
          TargetModels = [''gpt-3.5-turbo'', ''claude-instant''],
          SelectionPolicy = ''roundrobin''\<rparr>],
      Providers = exampleProviders\<rparr>"

text \<open>The example configuration with other rules, or other keys.\<close>

definition withRules :: "ModelRule list \<Rightarrow> Config" where
  "withRules rules = exampleConfig\<lparr>ModelRules := rules\<rparr>"

definition withKeys :: "APIKeyConfig list \<Rightarrow> Config" where
  "withKeys ks = exampleConfig\<lparr>APIKeys := ks\<rparr>"

text \<open>
  The mock servers: a request without its key is refused; the OpenAI mock answers
  the first \<open>limit\<close> upstream calls and is rate limited from then on; the Anthropic
  mock always answers. Every call takes a second.
\<close>

definition mockResponse :: "int \<Rightarrow> string \<Rightarrow> DoResult \<times> Duration" where
  "mockResponse code b = (DoOK \<lparr>StatusCode = code, RespBody = Some b, AfterClose = None\<rparr>, Second)"

definition mockServers :: "nat \<Rightarrow> nat \<Rightarrow> ProxyRequest \<Rightarrow> DoResult \<times> Duration" where
  "mockServers limit n req =
     (if Auth req = None then mockResponse 401 ''Unauthorized''
      else if URL req = ''https://api.openai.com/v1/chat/completions'' \<and> limit \<le> n
      then mockResponse 429 ''Rate limit exceeded''
      else mockResponse 200 (''Mock response for: '' @ Payload req))"

text \<open>
  A stand-in for the libraries: a body \<open>model:NAME\<close> decodes to a one-message request
  for \<open>NAME\<close>, anything else is not JSON; a request encodes to its model name; the
  digest is the identity.
\<close>

definition mockDecode :: "string \<Rightarrow> LLMRequest option" where
  "mockDecode b =
     (if HasPrefix b ''model:''
      then Some \<lparr>Model = drop 6 b, Messages = [\<lparr>Role = ''user'', Content = ''Hello''\<rparr>],
                 Prompt = [], MaxTokens = 0, Temperature = 0\<rparr>
      else None)"

definition mockEnv :: "nat \<Rightarrow> Env" where
  "mockEnv limit =
     \<lparr>json_Unmarshal = mockDecode,
      json_Marshal = (\<lambda>req. Some (Model req)),
      sha256_hex = (\<lambda>b. b),
      sprintf_f = (\<lambda>f. ''0.000000''),
      rand_Intn = (\<lambda>n. 0),
      http_NewRequest = (\<lambda>m u. True),
      client_Do = mockServers limit,
      strings_TrimSpace = (\<lambda>b. b),
      strings_Fields = (\<lambda>b. [b])\<rparr>"

definition post :: "string \<Rightarrow> Request" where
  "post b = \<lparr>Method = ''POST'', Header = [(''Content-Type'', ''application/json'')],
             Body = Some b\<rparr>"

text \<open>
  A rotator in mid-window: the first OpenAI key has used its budget of two, the second
  has one request left.
\<close>

definition spentKeys :: KeyRotator where
  "spentKeys =
     [\<lparr>Config = apiKey ''openai'' ''sk-openai-1'' 2 90000, usageCount = 2, lastUsed = T0\<rparr>,
      \<lparr>Config = apiKey ''anthropic'' ''sk-anthropic-1'' 2 90000, usageCount = 0, lastUsed = zeroTime\<rparr>,
      \<lparr>Config = apiKey ''openai'' ''sk-openai-2'' 2 90000, usageCount = 1, lastUsed = T0\<rparr>]"

text \<open>A rotator with a single key that allows one request a minute.\<close>

definition oneKey :: KeyRotator where
  "oneKey = NewKeyRotator [apiKey ''openai'' ''sk-openai-1'' 1 90000]"

text \<open>The key of \<open>TestRateLimiting\<close>: two requests a minute.\<close>

definition twoRequests :: "APIKeyConfig list" where
  "twoRequests = [apiKey ''openai'' ''test-key-1'' 2 1000]"

text \<open>
  Two conversations for the same model: two user messages, \<open>A\<close> then \<open>B\<close>, and one
  user message \<open>AuserB\<close>.
\<close>

definition splitChat :: LLMRequest where
  "splitChat =
     \<lparr>Model = ''gpt-4'',
      Messages = [\<lparr>Role = ''user'', Content = ''A''\<rparr>, \<lparr>Role = ''user'', Content = ''B''\<rparr>],
      Prompt = [], MaxTokens = 100, Temperature = 0\<rparr>"

definition joinedChat :: LLMRequest where
  "joinedChat =
     \<lparr>Model = ''gpt-4'', Messages = [\<lparr>Role = ''user'', Content = ''AuserB''\<rparr>],
      Prompt = [], MaxTokens = 100, Temperature = 0\<rparr>"

text \<open>
  The stand-in libraries with a decoder that knows the two conversations and an
  encoder that shows the message contents, so that the mock answer tells which
  conversation it answers.
\<close>

definition chatEnv :: Env where
  "chatEnv =
     (mockEnv 1)
       \<lparr>json_Unmarshal :=
          (\<lambda>b. if b = ''two messages'' then Some splitChat
                else if b = ''one message'' then Some joinedChat else None),
        json_Marshal :=
          (\<lambda>req. Some (Model req @ '': '' @ concat (map Content (Messages req))))\<rparr>"

text \<open>A round-robin rule with three targets.\<close>

definition threeTargets :: Config where
  "threeTargets =
     withRules [\<lparr>SourceModel = ''gpt-3.5-turbo'',
                 TargetModels = [''gpt-3.5-turbo'', ''claude-instant'', ''gpt-4''],
                 SelectionPolicy = ''roundrobin''\<rparr>]"

text \<open>The OpenAI and Anthropic keys of the example alone: no key for OpenRouter or Chutes.\<close>

definition twoProviders :: Config where
  "twoProviders =
     withKeys [apiKey ''openai'' ''sk-openai-1'' 3500 90000,
               apiKey ''anthropic'' ''sk-anthropic-1'' 10000 100000]"

text \<open>The decoded form of the body \<open>model:openrouter/auto\<close>.\<close>

definition autoRequest :: LLMRequest where
  "autoRequest =
     \<lparr>Model = ''openrouter/auto'', Messages = [\<lparr>Role = ''user'', Content = ''Hello''\<rparr>],
      Prompt = [], MaxTokens = 0, Temperature = 0\<rparr>"

text \<open>The decoded form of the body \<open>model:gpt-4\<close>.\<close>

definition gpt4Request :: LLMRequest where
  "gpt4Request =
     \<lparr>Model = ''gpt-4'', Messages = [\<lparr>Role = ''user'', Content = ''Hello''\<rparr>],
      Prompt = [], MaxTokens = 0, Temperature = 0\<rparr>"

text \<open>
  A fallback rule whose first target is not the source model itself.
\<close>

definition turboFirst :: Config where
  "turboFirst =
     withRules [\<lparr>SourceModel = ''gpt-4'', TargetModels = [''gpt-4-turbo'', ''claude-2''],
                 SelectionPolicy = ''fallback''\<rparr>]"

text \<open>A fallback rule whose only target is an OpenRouter model.\<close>

definition autoFallback :: Config where
  "autoFallback =
     withRules [\<lparr>SourceModel = ''gpt-4'', TargetModels = [''openrouter/auto''],
                 SelectionPolicy = ''fallback''\<rparr>]"

section \<open>Facts about the key rotator\<close>

lemma sint_le_max: "sint (m::go_int) \<le> maxInt"
  using sint_lt[of m] by (simp add: maxInt_def)

lemma sint_incr:
  fixes u :: go_int
  assumes "sint u < k" and "k \<le> maxInt"
  shows "sint (u + 1) = sint u + 1"
proof -
  have lo: "- (2 ^ 63) \<le> sint u" using sint_ge[of u] by simp
  have "sint (u + 1) = signed_take_bit 63 (sint u + 1)"
    using sint_word_ariths(1)[of u 1] by simp
  also have "\<dots> = sint u + 1"
    using lo assms by (intro signed_take_bit_int_eq_self) (simp_all add: maxInt_def)
  finally show ?thesis .
qed

lemma Sub_ge_Minute: "(Sub now t \<ge> Minute) = (now - t \<ge> Minute)"
  by (simp add: Sub_def Minute_def maxDuration_def minDuration_def)

lemma Config_resetIfElapsed [simp]: "Config (resetIfElapsed now k) = Config k"
  by (simp add: resetIfElapsed_def)

lemma scanKeys_Cons:
  "scanKeys now p (k # ks) =
     (if eligible now p k then (resetIfElapsed now k # ks, Some 0)
      else (case scanKeys now p ks of (ks', r) \<Rightarrow>
              ((if Provider (Config k) = p then resetIfElapsed now k else k) # ks',
               map_option Suc r)))"
  by (simp add: eligible_def Let_def)

lemma scanKeys_length [simp]: "length (fst (scanKeys now p ks)) = length ks"
  by (induction ks) (auto simp add: scanKeys_Cons simp del: scanKeys.simps(2) split: prod.splits)

lemma scanKeys_None: "(snd (scanKeys now p ks) = None) = (\<forall>k\<in>set ks. \<not> eligible now p k)"
  by (induction ks) (auto simp add: scanKeys_Cons simp del: scanKeys.simps(2) split: prod.splits)

lemma scanKeys_Some:
  "(snd (scanKeys now p ks) = Some i) =
     (i < length ks \<and> eligible now p (ks ! i) \<and> (\<forall>j<i. \<not> eligible now p (ks ! j)))"
proof (induction ks arbitrary: i)
  case Nil
  then show ?case by simp
next
  case (Cons k ks)
  show ?case
  proof (cases "eligible now p k")
    case True
    then have "snd (scanKeys now p (k # ks)) = Some 0"
      by (simp add: scanKeys_Cons del: scanKeys.simps(2))
    with True show ?thesis by (cases i) auto
  next
    case False
    then have s: "snd (scanKeys now p (k # ks)) = map_option Suc (snd (scanKeys now p ks))"
      by (simp add: scanKeys_Cons del: scanKeys.simps(2) split: prod.splits)
    show ?thesis
    proof (cases i)
      case 0
      with False s show ?thesis by auto
    next
      case (Suc n)
      have "(\<forall>j<Suc n. \<not> eligible now p ((k # ks) ! j)) = (\<forall>j<n. \<not> eligible now p (ks ! j))"
        using False by (auto simp: less_Suc_eq_0_disj)
      with Suc s Cons.IH[of n] show ?thesis by auto
    qed
  qed
qed

lemma scanKeys_state:
  "j < length ks \<Longrightarrow> fst (scanKeys now p ks) ! j =
     (if Provider (Config (ks ! j)) = p \<and> (case snd (scanKeys now p ks) of None \<Rightarrow> True | Some i \<Rightarrow> j \<le> i)
      then resetIfElapsed now (ks ! j) else ks ! j)"
proof (induction ks arbitrary: j)
  case Nil
  then show ?case by simp
next
  case (Cons k ks)
  show ?case
  proof (cases j)
    case 0
    then show ?thesis
      by (auto simp add: scanKeys_Cons eligible_def simp del: scanKeys.simps(2) split: prod.splits option.splits)
  next
    case (Suc n)
    with Cons.prems have n: "n < length ks" by simp
    show ?thesis using Suc Cons.IH[OF n]
      by (auto simp add: scanKeys_Cons eligible_def simp del: scanKeys.simps(2) split: prod.splits option.splits)
  qed
qed

lemma GetKey_fst: "fst (GetKey now p kr) = fst (scanKeys now p kr)"
  by (simp add: GetKey_def split: prod.splits option.splits)

lemma GetKey_Inr: "(snd (GetKey now p kr) = Inr i) = (snd (scanKeys now p kr) = Some i)"
  by (auto simp add: GetKey_def split: prod.splits option.splits)

lemma GetKey_Inl: "(snd (GetKey now p kr) = Inl e) = (snd (scanKeys now p kr) = None \<and> e = NoAvailableKeys p)"
  by (auto simp add: GetKey_def split: prod.splits option.splits)

lemma GetKey_length [simp]: "length (fst (GetKey now p kr)) = length kr"
  by (simp add: GetKey_fst)

lemma GetKey_elem:
  "j < length kr \<Longrightarrow>
     fst (GetKey now p kr) ! j = kr ! j \<or> fst (GetKey now p kr) ! j = resetIfElapsed now (kr ! j)"
  by (simp add: GetKey_fst scanKeys_state)

lemma GetKey_granted:
  assumes "snd (GetKey now p kr) = Inr i"
  shows "i < length kr" and "fst (GetKey now p kr) ! i = resetIfElapsed now (kr ! i)"
    and "usageCount (fst (GetKey now p kr) ! i) <s MaxRPM (Config (fst (GetKey now p kr) ! i))"
proof -
  from assms have s: "snd (scanKeys now p kr) = Some i" by (simp add: GetKey_Inr)
  then have e: "i < length kr" "eligible now p (kr ! i)" by (simp_all add: scanKeys_Some)
  show "i < length kr" by fact
  show r: "fst (GetKey now p kr) ! i = resetIfElapsed now (kr ! i)"
    using e s by (simp add: GetKey_fst scanKeys_state eligible_def)
  show "usageCount (fst (GetKey now p kr) ! i) <s MaxRPM (Config (fst (GetKey now p kr) ! i))"
    using e by (simp add: r eligible_def)
qed

lemma GetKey_snd:
  "snd (GetKey now p kr) =
     (case snd (scanKeys now p kr) of Some i \<Rightarrow> Inr i | None \<Rightarrow> Inl (NoAvailableKeys p))"
  by (simp add: GetKey_def split: prod.splits option.splits)

lemma GetKey_state:
  "j < length kr \<Longrightarrow> fst (GetKey now p kr) ! j =
     (if Provider (Config (kr ! j)) = p
         \<and> (case snd (GetKey now p kr) of Inr i \<Rightarrow> j \<le> i | Inl err \<Rightarrow> True)
      then resetIfElapsed now (kr ! j) else kr ! j)"
  by (auto simp add: GetKey_fst GetKey_snd scanKeys_state split: option.splits)

text \<open>
  C7, as stated, fails on what the minute is counted from. The rotator keeps no
  start of a window: the reset looks at \<open>lastUsed\<close>, which every \<open>ReportUsage\<close> stamps
  anew and \<open>GetKey\<close> never advances. With a limit of two, a key granted and released
  at \<open>T0\<close> and again fifty seconds later has its counter at two, counted from \<open>T0\<close>
  on. A hundred seconds after \<open>T0\<close>, more than a minute past the start of that
  count but fifty seconds after the last release, \<open>GetKey\<close> does not reset the
  counter and fails.
\<close>

theorem GetKey_window_counterexample:
  "map usageCount (fst (GetKey T0 ''openai'' (NewKeyRotator twoRequests))) = [0]
   \<and> map usageCount
        (runCycles [(T0, ''openai'', T0), (T0 + 50 * Second, ''openai'', T0 + 50 * Second)]
           (NewKeyRotator twoRequests)) = [2]
   \<and> map lastUsed
        (runCycles [(T0, ''openai'', T0), (T0 + 50 * Second, ''openai'', T0 + 50 * Second)]
           (NewKeyRotator twoRequests)) = [T0 + 50 * Second]
   \<and> Minute \<le> (T0 + 100 * Second) - T0
   \<and> snd (GetKey (T0 + 100 * Second) ''openai''
        (runCycles [(T0, ''openai'', T0), (T0 + 50 * Second, ''openai'', T0 + 50 * Second)]
           (NewKeyRotator twoRequests))) = Inl (NoAvailableKeys ''openai'')
   \<and> map usageCount (fst (GetKey (T0 + 100 * Second) ''openai''
        (runCycles [(T0, ''openai'', T0), (T0 + 50 * Second, ''openai'', T0 + 50 * Second)]
           (NewKeyRotator twoRequests)))) = [2]"
  by code_simp

text \<open>
  C7, amended. \<open>GetKey\<close> is first-fit in list order, which is the configuration
  order (\<open>NewKeyRotator\<close> keeps it): it returns position \<open>i\<close> exactly when the key at
  \<open>i\<close> belongs to the provider and has budget left after the reset, and no earlier
  key does; it fails exactly when no key of the provider has budget left. The reset
  sets the counter to zero when the clock is at least a minute past \<open>lastUsed\<close>, the
  time of the key's last release: \<open>ReportUsage\<close> stamps it, the reset leaves it as it
  is, and it is the zero time for a key never released. The reset is applied
  before the budget check: the key handed out is the reset key, with its counter
  strictly below \<open>MaxRPM\<close>. The scan leaves the reset in every key of the provider up
  to the one it returns (in all of them when it fails) and touches no other key.
\<close>

theorem GetKey_first_fit:
  "((snd (GetKey now provider kr) = Inr i) =
      (i < length kr \<and> eligible now provider (kr ! i) \<and>
       (\<forall>j<i. \<not> eligible now provider (kr ! j))))
   \<and> ((\<exists>err. snd (GetKey now provider kr) = Inl err) =
      (\<forall>k\<in>set kr. \<not> eligible now provider k))
   \<and> (snd (GetKey now provider kr) = Inr i \<longrightarrow>
        fst (GetKey now provider kr) ! i = resetIfElapsed now (kr ! i) \<and>
        usageCount (fst (GetKey now provider kr) ! i)
          <s MaxRPM (Config (fst (GetKey now provider kr) ! i)))
   \<and> resetIfElapsed now k =
        (if Minute \<le> now - lastUsed k then k\<lparr>usageCount := 0\<rparr> else k)
   \<and> map Config (NewKeyRotator configs) = configs
   \<and> map lastUsed (NewKeyRotator configs) = map (\<lambda>c. zeroTime) configs
   \<and> length (fst (GetKey now provider kr)) = length kr
   \<and> (n < length kr \<longrightarrow>
        fst (GetKey now provider kr) ! n =
          (if Provider (Config (kr ! n)) = provider
              \<and> (case snd (GetKey now provider kr) of Inr g \<Rightarrow> n \<le> g | Inl err \<Rightarrow> True)
           then resetIfElapsed now (kr ! n) else kr ! n))
   \<and> (key < length kr \<longrightarrow>
        lastUsed (ReportUsage released key tokens kr ! key) = released)"
proof (intro conjI impI)
  show "map Config (NewKeyRotator configs) = configs"
    by (simp add: NewKeyRotator_def o_def)
  show "map lastUsed (NewKeyRotator configs) = map (\<lambda>c. zeroTime) configs"
    by (simp add: NewKeyRotator_def o_def)
  show "(snd (GetKey now provider kr) = Inr i) =
      (i < length kr \<and> eligible now provider (kr ! i) \<and>
       (\<forall>j<i. \<not> eligible now provider (kr ! j)))"
    by (simp add: GetKey_Inr scanKeys_Some)
  show "(\<exists>err. snd (GetKey now provider kr) = Inl err) =
      (\<forall>k\<in>set kr. \<not> eligible now provider k)"
    by (simp add: GetKey_Inl scanKeys_None)
  show "resetIfElapsed now k =
        (if Minute \<le> now - lastUsed k then k\<lparr>usageCount := 0\<rparr> else k)"
    by (simp add: resetIfElapsed_def Sub_ge_Minute)
  show "length (fst (GetKey now provider kr)) = length kr" by simp
next
  assume a: "snd (GetKey now provider kr) = Inr i"
  show "fst (GetKey now provider kr) ! i = resetIfElapsed now (kr ! i)"
    by (rule GetKey_granted(2)[OF a])
  show "usageCount (fst (GetKey now provider kr) ! i)
          <s MaxRPM (Config (fst (GetKey now provider kr) ! i))"
    by (rule GetKey_granted(3)[OF a])
next
  assume "n < length kr"
  then show "fst (GetKey now provider kr) ! n =
          (if Provider (Config (kr ! n)) = provider
              \<and> (case snd (GetKey now provider kr) of Inr g \<Rightarrow> n \<le> g | Inl err \<Rightarrow> True)
           then resetIfElapsed now (kr ! n) else kr ! n)"
    by (rule GetKey_state)
next
  assume "key < length kr"
  then show "lastUsed (ReportUsage released key tokens kr ! key) = released"
    by (simp add: ReportUsage_def)
qed

theorem GetKey_first_fit_witness:
  "snd (GetKey (T0 + Second) ''openai'' spentKeys) = Inr 2
   \<and> usageCount (fst (GetKey (T0 + Second) ''openai'' spentKeys) ! 2) = 1
   \<and> snd (GetKey (T0 + Minute) ''openai'' spentKeys) = Inr 0
   \<and> usageCount (fst (GetKey (T0 + Minute) ''openai'' spentKeys) ! 0) = 0
   \<and> fst (GetKey (T0 + Minute) ''openai'' spentKeys) ! 2 = spentKeys ! 2
   \<and> lastUsed (ReportUsage (T0 + Minute) 0 0 spentKeys ! 0) = T0 + Minute"
proof -
  have e: "\<not> eligible (T0 + Second) ''openai'' (spentKeys ! 0)"
      "\<not> eligible (T0 + Second) ''openai'' (spentKeys ! 1)"
      "eligible (T0 + Second) ''openai'' (spentKeys ! 2)"
      "eligible (T0 + Minute) ''openai'' (spentKeys ! 0)"
    by (simp_all add: eligible_def spentKeys_def apiKey_def resetIfElapsed_def Sub_def
        maxDuration_def minDuration_def Minute_def Second_def T0_def word_sless_alt)
  have l: "length spentKeys = 3" by (simp add: spentKeys_def)
  note t1 = GetKey_first_fit[of "T0 + Second" "''openai''" spentKeys 2 "spentKeys ! 2" "[]" 0 0 0 0]
  note t2 = GetKey_first_fit[of "T0 + Minute" "''openai''" spentKeys 0 "spentKeys ! 0" "[]" 2 0
      "T0 + Minute" 0]
  have a: "snd (GetKey (T0 + Second) ''openai'' spentKeys) = Inr 2"
    using t1[THEN conjunct1] e l by (simp add: less_Suc_eq numeral_2_eq_2)
  have b: "snd (GetKey (T0 + Minute) ''openai'' spentKeys) = Inr 0"
    using t2[THEN conjunct1] e l by simp
  have r: "resetIfElapsed (T0 + Second) (spentKeys ! 2) = spentKeys ! 2"
      "usageCount (resetIfElapsed (T0 + Minute) (spentKeys ! 0)) = 0"
    by (simp_all add: spentKeys_def resetIfElapsed_def Sub_def maxDuration_def minDuration_def
        Minute_def Second_def T0_def)
  have u: "usageCount (spentKeys ! 2) = 1" by (simp add: spentKeys_def)
  have c: "usageCount (fst (GetKey (T0 + Second) ''openai'' spentKeys) ! 2) = 1"
    using t1[THEN conjunct2, THEN conjunct2, THEN conjunct1, rule_format, OF a, THEN conjunct1]
    by (simp only: r u)
  have d: "usageCount (fst (GetKey (T0 + Minute) ''openai'' spentKeys) ! 0) = 0"
    using t2[THEN conjunct2, THEN conjunct2, THEN conjunct1, rule_format, OF b, THEN conjunct1]
    by (simp only: r)
  have n: "(2::nat) < length spentKeys" "(0::nat) < length spentKeys" by (simp_all add: l)
  have f: "fst (GetKey (T0 + Minute) ''openai'' spentKeys) ! 2 = spentKeys ! 2"
    using t2[THEN conjunct2, THEN conjunct2, THEN conjunct2, THEN conjunct2, THEN conjunct2,
        THEN conjunct2, THEN conjunct2, THEN conjunct1, rule_format, OF n(1)] b
    by simp
  have g: "lastUsed (ReportUsage (T0 + Minute) 0 0 spentKeys ! 0) = T0 + Minute"
    by (rule t2[THEN conjunct2, THEN conjunct2, THEN conjunct2, THEN conjunct2, THEN conjunct2,
        THEN conjunct2, THEN conjunct2, THEN conjunct2, rule_format, OF n(2)])
  from a c b d f g show ?thesis by (intro conjI)
qed

section \<open>Facts about the cache\<close>

lemma Get_Set_entry:
  "Get t key (Set_entry now key d c) = (if now + ttl c < t then None else Some d)"
  by (simp add: Get_def Set_entry_def After_def)

text \<open>
  C8, as stated, fails at the instant of expiry: \<open>Get\<close> drops an entry only when the
  clock is strictly after \<open>ExpiresAt\<close>, so an entry stored at \<open>T0\<close> with a ttl of five
  minutes is still returned at \<open>T0\<close> plus five minutes.
\<close>

theorem cache_counterexample:
  "Get (T0 + 5 * Minute) ''k'' (Set_entry T0 ''k'' ''payload'' (New (5 * Minute))) = Some ''payload''
   \<and> entries (Set_entry T0 ''k'' ''payload'' (New (5 * Minute))) ''k''
       = Some \<lparr>Data = ''payload'', ExpiresAt = T0 + 5 * Minute\<rparr>"
  by (simp add: Get_def Set_entry_def New_def After_def)

text \<open>
  C8, amended. \<open>Get\<close> returns an entry only while the clock is not after its expiry:
  never once the clock is strictly past \<open>ExpiresAt\<close>, and always up to and including
  \<open>ExpiresAt\<close> itself. \<open>Set_entry\<close> stores the bytes under the key with expiry
  \<open>now + ttl\<close> whatever was there before, and touches no other key and not the ttl.
\<close>

theorem cache_expiry_and_store:
  "(Get now key c = Some d \<longrightarrow>
      (\<exists>entry. entries c key = Some entry \<and> Data entry = d \<and> now \<le> ExpiresAt entry))
   \<and> (entries c key = Some entry \<and> ExpiresAt entry < now \<longrightarrow> Get now key c = None)
   \<and> (entries c key = Some entry \<and> now \<le> ExpiresAt entry \<longrightarrow> Get now key c = Some (Data entry))
   \<and> entries (Set_entry now key d c) key = Some \<lparr>Data = d, ExpiresAt = now + ttl c\<rparr>
   \<and> (key' \<noteq> key \<longrightarrow> entries (Set_entry now key d c) key' = entries c key')
   \<and> ttl (Set_entry now key d c) = ttl c"
  by (auto simp add: Get_def Set_entry_def After_def split: option.splits if_splits)

theorem cache_expiry_and_store_witness:
  "Get (T0 + 5 * Minute + 1) ''k'' (Set_entry T0 ''k'' ''payload'' (New (5 * Minute))) = None
   \<and> Get (T0 + 5 * Minute) ''k'' (Set_entry T0 ''k'' ''payload'' (New (5 * Minute))) = Some ''payload''
   \<and> entries (Set_entry (T0 + Second) ''k'' ''new'' (Set_entry T0 ''k'' ''payload'' (New (5 * Minute)))) ''k''
       = Some \<lparr>Data = ''new'', ExpiresAt = T0 + Second + 5 * Minute\<rparr>"
proof -
  let ?c = "Set_entry T0 ''k'' ''payload'' (New (5 * Minute))"
  let ?e = "\<lparr>Data = ''payload'', ExpiresAt = T0 + 5 * Minute\<rparr>"
  have e: "entries ?c ''k'' = Some ?e" and t: "ttl ?c = 5 * Minute"
    by (simp_all add: Set_entry_def New_def)
  have m: "(0::int) < Minute" by (simp add: Minute_def)
  have "Get (T0 + 5 * Minute + 1) ''k'' ?c = None"
    using cache_expiry_and_store[of "T0 + 5 * Minute + 1" "''k''" ?c d ?e] e by simp
  moreover have "Get (T0 + 5 * Minute) ''k'' ?c = Some ''payload''"
    using cache_expiry_and_store[of "T0 + 5 * Minute" "''k''" ?c d ?e] e by simp
  moreover have "entries (Set_entry (T0 + Second) ''k'' ''new'' ?c) ''k''
       = Some \<lparr>Data = ''new'', ExpiresAt = T0 + Second + 5 * Minute\<rparr>"
    using cache_expiry_and_store[of "T0 + Second" "''k''" ?c "''new''"] t by simp
  ultimately show ?thesis by simp
qed

section \<open>Facts about the usage counters\<close>

lemma usageCount_resetIfElapsed_cases:
  "resetIfElapsed now k = k \<or> resetIfElapsed now k = k\<lparr>usageCount := 0\<rparr>"
  by (simp add: resetIfElapsed_def)

lemma GetKey_Config: "j < length kr \<Longrightarrow> Config (fst (GetKey now p kr) ! j) = Config (kr ! j)"
  using GetKey_elem[of j kr now p] by auto

lemma GetKey_usageCount:
  "j < length kr \<Longrightarrow>
     usageCount (fst (GetKey now p kr) ! j) = usageCount (kr ! j)
     \<or> usageCount (fst (GetKey now p kr) ! j) = 0"
  using GetKey_elem[of j kr now p] usageCount_resetIfElapsed_cases[of now "kr ! j"] by auto

lemma ReportUsage_length [simp]: "length (ReportUsage now key tokens kr) = length kr"
  by (simp add: ReportUsage_def)

lemma ReportUsage_Config: "Config (ReportUsage now key tokens kr ! j) = Config (kr ! j)"
  by (cases "j = key") (simp_all add: ReportUsage_def)

lemma ReportUsage_usageCount:
  "j < length kr \<Longrightarrow> usageCount (ReportUsage now key tokens kr ! j) =
     (if j = key then usageCount (kr ! j) + 1 else usageCount (kr ! j))"
  by (simp add: ReportUsage_def)

text \<open>Counters between zero and \<open>n\<close>: \<open>n\<close> counts the operations so far.\<close>

lemma counted_mono:
  "list_all (\<lambda>k. 0 \<le> sint (usageCount k) \<and> sint (usageCount k) \<le> n) kr \<Longrightarrow> n \<le> m \<Longrightarrow>
     list_all (\<lambda>k. 0 \<le> sint (usageCount k) \<and> sint (usageCount k) \<le> m) kr"
  by (induction kr) auto

lemma GetKey_counted:
  assumes "list_all (\<lambda>k. 0 \<le> sint (usageCount k) \<and> sint (usageCount k) \<le> n) kr" and "0 \<le> n"
  shows "list_all (\<lambda>k. 0 \<le> sint (usageCount k) \<and> sint (usageCount k) \<le> n)
           (fst (GetKey now p kr))"
  unfolding list_all_length
proof (intro allI impI)
  fix j assume "j < length (fst (GetKey now p kr))"
  then have j: "j < length kr" by simp
  with assms have "0 \<le> sint (usageCount (kr ! j))" "sint (usageCount (kr ! j)) \<le> n"
    by (simp_all add: list_all_length)
  with GetKey_usageCount[OF j, of now p] assms(2)
  show "0 \<le> sint (usageCount (fst (GetKey now p kr) ! j)) \<and>
        sint (usageCount (fst (GetKey now p kr) ! j)) \<le> n"
    by auto
qed

lemma ReportUsage_counted:
  assumes "list_all (\<lambda>k. 0 \<le> sint (usageCount k) \<and> sint (usageCount k) \<le> n) kr"
    and "n < maxInt"
  shows "list_all (\<lambda>k. 0 \<le> sint (usageCount k) \<and> sint (usageCount k) \<le> n + 1)
           (ReportUsage now key tokens kr)"
  unfolding list_all_length
proof (intro allI impI)
  fix j assume "j < length (ReportUsage now key tokens kr)"
  then have j: "j < length kr" by simp
  with assms have b: "0 \<le> sint (usageCount (kr ! j))" "sint (usageCount (kr ! j)) \<le> n"
    by (simp_all add: list_all_length)
  have "sint (usageCount (kr ! j) + 1) = sint (usageCount (kr ! j)) + 1"
    using b(2) assms(2) by (intro sint_incr[of _ "n + 1"]) simp_all
  with b j show "0 \<le> sint (usageCount (ReportUsage now key tokens kr ! j)) \<and>
        sint (usageCount (ReportUsage now key tokens kr ! j)) \<le> n + 1"
    by (auto simp add: ReportUsage_usageCount)
qed

lemma applyOp_counted:
  assumes "list_all (\<lambda>k. 0 \<le> sint (usageCount k) \<and> sint (usageCount k) \<le> n) kr"
    and "0 \<le> n" and "n < maxInt"
  shows "list_all (\<lambda>k. 0 \<le> sint (usageCount k) \<and> sint (usageCount k) \<le> n + 1) (applyOp op kr)"
proof (cases op)
  case (Acquire now p)
  have "list_all (\<lambda>k. 0 \<le> sint (usageCount k) \<and> sint (usageCount k) \<le> n) (applyOp op kr)"
    using GetKey_counted[OF assms(1,2)] Acquire by simp
  then show ?thesis by (rule counted_mono) simp
next
  case (Release now key)
  with ReportUsage_counted[OF assms(1,3)] show ?thesis by simp
qed

lemma runOps_counted:
  "list_all (\<lambda>k. 0 \<le> sint (usageCount k) \<and> sint (usageCount k) \<le> n) kr \<Longrightarrow> 0 \<le> n \<Longrightarrow>
   n + int (length ops) \<le> maxInt \<Longrightarrow>
     list_all (\<lambda>k. 0 \<le> sint (usageCount k) \<and> sint (usageCount k) \<le> n + int (length ops))
       (runOps ops kr)"
proof (induction ops arbitrary: kr n)
  case Nil
  then show ?case by (simp add: runOps_def)
next
  case (Cons op ops)
  have s: "runOps (op # ops) kr = runOps ops (applyOp op kr)" by (simp add: runOps_def)
  have n: "n < maxInt" using Cons.prems(3) by simp
  have "list_all (\<lambda>k. 0 \<le> sint (usageCount k) \<and> sint (usageCount k) \<le> (n + 1) + int (length ops))
       (runOps ops (applyOp op kr))"
    using Cons.prems by (intro Cons.IH applyOp_counted n) simp_all
  then show ?case unfolding s by (rule counted_mono) simp
qed

lemma NewKeyRotator_counted:
  "list_all (\<lambda>k. 0 \<le> sint (usageCount k) \<and> sint (usageCount k) \<le> 0) (NewKeyRotator configs)"
  by (simp add: NewKeyRotator_def list_all_length)

lemma GetKey_withinBudget:
  assumes "budgets kr" and "withinBudget kr"
  shows "budgets (fst (GetKey now p kr))" and "withinBudget (fst (GetKey now p kr))"
proof -
  show "budgets (fst (GetKey now p kr))"
    using assms(1) by (simp add: budgets_def list_all_length GetKey_Config)
  show "withinBudget (fst (GetKey now p kr))"
    unfolding withinBudget_def list_all_length
  proof (intro allI impI)
    fix j assume "j < length (fst (GetKey now p kr))"
    then have j: "j < length kr" by simp
    with assms have b: "0 \<le>s MaxRPM (Config (kr ! j))" "0 \<le>s usageCount (kr ! j)"
        "usageCount (kr ! j) \<le>s MaxRPM (Config (kr ! j))"
      by (simp_all add: budgets_def withinBudget_def list_all_length)
    from GetKey_usageCount[OF j, of now p] b
    show "0 \<le>s usageCount (fst (GetKey now p kr) ! j) \<and>
          usageCount (fst (GetKey now p kr) ! j) \<le>s MaxRPM (Config (fst (GetKey now p kr) ! j))"
      by (auto simp add: GetKey_Config[OF j])
  qed
qed

lemma cycle_eq:
  "cycle (ta, p, tr) kr =
     (case snd (GetKey ta p kr) of
        Inl err \<Rightarrow> fst (GetKey ta p kr)
      | Inr key \<Rightarrow> ReportUsage tr key 0 (fst (GetKey ta p kr)))"
  by (simp add: cycle_def split: prod.splits sum.splits)

lemma cycle_withinBudget:
  assumes "budgets kr" and "withinBudget kr"
  shows "budgets (cycle c kr)" and "withinBudget (cycle c kr)"
proof -
  obtain ta p tr where c: "c = (ta, p, tr)" by (cases c)
  let ?kr = "fst (GetKey ta p kr)"
  have g: "budgets ?kr" "withinBudget ?kr" using assms by (simp_all add: GetKey_withinBudget)
  have r: "budgets (ReportUsage tr key 0 ?kr)" for key
    using g(1) by (simp add: budgets_def list_all_length ReportUsage_Config)
  show "budgets (cycle c kr)"
  proof (cases "snd (GetKey ta p kr)")
    case (Inl e)
    then have "cycle c kr = ?kr" by (simp add: c cycle_eq)
    with g show ?thesis by simp
  next
    case (Inr key)
    then have "cycle c kr = ReportUsage tr key 0 ?kr" by (simp add: c cycle_eq)
    with r show ?thesis by simp
  qed
  show "withinBudget (cycle c kr)"
  proof (cases "snd (GetKey ta p kr)")
    case (Inl e)
    then have "cycle c kr = ?kr" by (simp add: c cycle_eq)
    with g show ?thesis by simp
  next
    case (Inr key)
    then have eq: "cycle c kr = ReportUsage tr key 0 ?kr" by (simp add: c cycle_eq)
    have lt: "sint (usageCount (?kr ! key)) < sint (MaxRPM (Config (?kr ! key)))"
      using GetKey_granted(3)[OF Inr] by (simp add: word_sless_alt)
    have inc: "sint (usageCount (?kr ! key) + 1) = sint (usageCount (?kr ! key)) + 1"
      by (rule sint_incr[OF lt sint_le_max])
    show ?thesis unfolding eq withinBudget_def list_all_length
    proof (intro allI impI)
      fix j assume "j < length (ReportUsage tr key 0 ?kr)"
      then have j: "j < length ?kr" by simp
      with g(2) have "0 \<le> sint (usageCount (?kr ! j))"
          "sint (usageCount (?kr ! j)) \<le> sint (MaxRPM (Config (?kr ! j)))"
        by (simp_all add: withinBudget_def list_all_length word_sle_eq)
      with lt inc j show "0 \<le>s usageCount (ReportUsage tr key 0 ?kr ! j) \<and>
          usageCount (ReportUsage tr key 0 ?kr ! j) \<le>s MaxRPM (Config (ReportUsage tr key 0 ?kr ! j))"
        by (auto simp add: ReportUsage_usageCount ReportUsage_Config word_sle_eq)
    qed
  qed
qed

lemma runCycles_withinBudget:
  "budgets kr \<Longrightarrow> withinBudget kr \<Longrightarrow> withinBudget (runCycles cs kr)"
  unfolding runCycles_def by (induction cs arbitrary: kr) (simp_all add: cycle_withinBudget)

lemma NewKeyRotator_withinBudget:
  "list_all (\<lambda>c. 0 \<le>s MaxRPM c) configs \<Longrightarrow>
     budgets (NewKeyRotator configs) \<and> withinBudget (NewKeyRotator configs)"
  by (simp add: NewKeyRotator_def budgets_def withinBudget_def list_all_length)

text \<open>The increment of \<open>ReportUsage\<close> at the largest \<open>int\<close>: the counter turns negative.\<close>

lemma ReportUsage_wraps:
  "map (\<lambda>k. sint (usageCount k))
     (ReportUsage T0 0 0 (map (\<lambda>k. k\<lparr>usageCount := 9223372036854775807\<rparr>) oneKey))
   = [- 9223372036854775808]"
  by code_simp

text \<open>
  C4, as stated, fails: \<open>ReportUsage\<close> increments without looking at the limit, and
  \<open>GetKey\<close> does not count the key it hands out. With a limit of one, two acquires
  are both granted the key before either release, and the two releases leave the
  counter at two.
\<close>

theorem usageCount_counterexample:
  "snd (GetKey T0 ''openai'' oneKey) = Inr 0
   \<and> snd (GetKey T0 ''openai'' (fst (GetKey T0 ''openai'' oneKey))) = Inr 0
   \<and> map usageCount
        (runOps [Acquire T0 ''openai'', Acquire T0 ''openai'', Release T0 0, Release T0 0] oneKey) = [2]
   \<and> map (\<lambda>k. MaxRPM (Config k))
        (runOps [Acquire T0 ''openai'', Acquire T0 ''openai'', Release T0 0, Release T0 0] oneKey) = [1]
   \<and> \<not> withinBudget
        (runOps [Acquire T0 ''openai'', Acquire T0 ''openai'', Release T0 0, Release T0 0] oneKey)"
  by code_simp

text \<open>
  C4, amended. At the moment \<open>GetKey\<close> grants a key its counter is strictly below its
  limit. The counter stays within \<open>[0, MaxRPM]\<close> over any sequence of
  acquire-then-release cycles, where each release is of the key just granted
  (limits non-negative, as validation ensures). Over an arbitrary sequence of
  acquires and releases from a fresh rotator the counter can exceed the limit; it
  is never negative as long as the sequence is shorter than 2^63 operations: the
  counter is a machine word that \<open>ReportUsage\<close> increments without a check, so beyond
  that it wraps around.
\<close>

theorem usageCount_bounds:
  "(int (length ops) \<le> maxInt \<longrightarrow>
      list_all (\<lambda>k. 0 \<le>s usageCount k) (runOps ops (NewKeyRotator configs)))
   \<and> (snd (GetKey now provider kr) = Inr key \<longrightarrow>
        usageCount (fst (GetKey now provider kr) ! key)
          <s MaxRPM (Config (fst (GetKey now provider kr) ! key)))
   \<and> (list_all (\<lambda>c. 0 \<le>s MaxRPM c) configs \<longrightarrow>
        withinBudget (runCycles cs (NewKeyRotator configs)))"
proof (intro conjI impI)
  assume "int (length ops) \<le> maxInt"
  then have "list_all (\<lambda>k. 0 \<le> sint (usageCount k) \<and> sint (usageCount k) \<le> 0 + int (length ops))
      (runOps ops (NewKeyRotator configs))"
    by (intro runOps_counted NewKeyRotator_counted) simp_all
  then show "list_all (\<lambda>k. 0 \<le>s usageCount k) (runOps ops (NewKeyRotator configs))"
    by (simp add: list_all_length word_sle_eq)
next
  assume "snd (GetKey now provider kr) = Inr key"
  then show "usageCount (fst (GetKey now provider kr) ! key)
          <s MaxRPM (Config (fst (GetKey now provider kr) ! key))"
    by (rule GetKey_granted(3))
next
  assume "list_all (\<lambda>c. 0 \<le>s MaxRPM c) configs"
  then show "withinBudget (runCycles cs (NewKeyRotator configs))"
    using NewKeyRotator_withinBudget runCycles_withinBudget by blast
qed

theorem usageCount_bounds_witness:
  "withinBudget (runCycles [(T0, ''openai'', T0), (T0, ''openai'', T0), (T0, ''openai'', T0)]
       (NewKeyRotator twoRequests))
   \<and> map usageCount (runCycles [(T0, ''openai'', T0), (T0, ''openai'', T0), (T0, ''openai'', T0)]
       (NewKeyRotator twoRequests)) = [2]
   \<and> usageCount (fst (GetKey T0 ''openai'' (NewKeyRotator twoRequests)) ! 0) <s 2
   \<and> list_all (\<lambda>k. 0 \<le>s usageCount k)
        (runOps [Acquire T0 ''openai'', Release T0 0, Release T0 0, Release T0 0]
           (NewKeyRotator twoRequests))
   \<and> map usageCount
        (runOps [Acquire T0 ''openai'', Release T0 0, Release T0 0, Release T0 0]
           (NewKeyRotator twoRequests)) = [3]"
proof -
  let ?ops = "[Acquire T0 ''openai'', Release T0 0, Release T0 0, Release T0 0]"
  let ?cs = "[(T0, ''openai'', T0), (T0, ''openai'', T0), (T0, ''openai'', T0)]"
  have l: "int (length ?ops) \<le> maxInt" by (simp add: maxInt_def)
  have c: "list_all (\<lambda>c. 0 \<le>s MaxRPM c) twoRequests"
    by (simp add: twoRequests_def apiKey_def word_sle_eq)
  have g: "snd (GetKey T0 ''openai'' (NewKeyRotator twoRequests)) = Inr 0" by code_simp
  have m: "MaxRPM (Config (fst (GetKey T0 ''openai'' (NewKeyRotator twoRequests)) ! 0)) = 2"
    by code_simp
  have u: "map usageCount (runCycles ?cs (NewKeyRotator twoRequests)) = [2]" by code_simp
  have v: "map usageCount (runOps ?ops (NewKeyRotator twoRequests)) = [3]" by code_simp
  note th = usageCount_bounds[of ?ops twoRequests T0 "''openai''" "NewKeyRotator twoRequests" 0 ?cs]
  have a1: "withinBudget (runCycles ?cs (NewKeyRotator twoRequests))"
    using th c by blast
  have a2: "usageCount (fst (GetKey T0 ''openai'' (NewKeyRotator twoRequests)) ! 0) <s 2"
    using th g m by metis
  have a3: "list_all (\<lambda>k. 0 \<le>s usageCount k) (runOps ?ops (NewKeyRotator twoRequests))"
    using th l by blast
  from a1 u a2 a3 v show ?thesis by (intro conjI)
qed

section \<open>Facts about the cache key\<close>

text \<open>
  C5 on the code. \<open>generateCacheKey\<close> writes the fields to the hash one after the
  other with nothing between them, so requests that differ in their messages can
  write the same bytes and get the same key, whatever the digest is: the
  conversation \<open>[user: A, user: B]\<close> and the conversation \<open>[user: AuserB]\<close> both
  write \<open>gpt-4userAuserB100\<close> and the temperature. The handler then answers the second
  with the response cached for the first, where the upstream would have answered
  it differently.
\<close>

theorem generateCacheKey_collision:
  "Messages splitChat \<noteq> Messages joinedChat
   \<and> (\<forall>E. hashInput E splitChat = hashInput E joinedChat)
   \<and> (\<forall>E. generateCacheKey E splitChat = generateCacheKey E joinedChat)
   \<and> snd (handleProxy chatEnv (post ''two messages'') (NewServer exampleConfig T0))
       = Responded 200 ''Mock response for: gpt-4: AB''
   \<and> snd (handleProxy chatEnv (post ''one message'')
        ((fst (handleProxy chatEnv (post ''two messages'') (NewServer exampleConfig T0)))
           \<lparr>clock := T0 + Minute\<rparr>))
       = Responded 200 ''Mock response for: gpt-4: AB''
   \<and> snd (handleProxy chatEnv (post ''one message'') (NewServer exampleConfig T0))
       = Responded 200 ''Mock response for: gpt-4: AuserB''"
proof (intro conjI)
  show "Messages splitChat \<noteq> Messages joinedChat"
    by (simp add: splitChat_def joinedChat_def)
  show "\<forall>E. hashInput E splitChat = hashInput E joinedChat"
    by (simp add: splitChat_def joinedChat_def hashInput_def)
  then show "\<forall>E. generateCacheKey E splitChat = generateCacheKey E joinedChat"
    by (simp add: generateCacheKey_def)
  show "snd (handleProxy chatEnv (post ''two messages'') (NewServer exampleConfig T0))
       = Responded 200 ''Mock response for: gpt-4: AB''"
    by code_simp
  show "snd (handleProxy chatEnv (post ''one message'')
        ((fst (handleProxy chatEnv (post ''two messages'') (NewServer exampleConfig T0)))
           \<lparr>clock := T0 + Minute\<rparr>))
       = Responded 200 ''Mock response for: gpt-4: AB''"
    by code_simp
  show "snd (handleProxy chatEnv (post ''one message'') (NewServer exampleConfig T0))
       = Responded 200 ''Mock response for: gpt-4: AuserB''"
    by code_simp
qed

section \<open>Facts about the handler\<close>

text \<open>
  C9. A body that is not a command and that \<open>json.Unmarshal\<close> rejects gets the 400
  answer "Invalid request format"; the server is left exactly as it was: no key is
  scanned, handed out or charged, no counter moves, nothing is sent upstream and
  nothing is cached.
\<close>

theorem handleProxy_malformed:
  "Body r = Some body \<Longrightarrow> \<not> HasPrefix body ''#roxy'' \<Longrightarrow> json_Unmarshal E body = None \<Longrightarrow>
     handleProxy E r s = (s, Responded 400 (''Invalid request format'' @ [CHR 0x0A]))"
  by (simp add: handleProxy_def http_Error_def)

theorem handleProxy_malformed_witness:
  "Body (post ''{model: gpt-4'') = Some ''{model: gpt-4''
   \<and> \<not> HasPrefix ''{model: gpt-4'' ''#roxy''
   \<and> json_Unmarshal (mockEnv 1) ''{model: gpt-4'' = None
   \<and> handleProxy (mockEnv 1) (post ''{model: gpt-4'') (NewServer exampleConfig T0)
       = (NewServer exampleConfig T0, Responded 400 (''Invalid request format'' @ [CHR 0x0A]))
   \<and> sent (fst (handleProxy (mockEnv 1) (post ''{model: gpt-4'') (NewServer exampleConfig T0))) = []
   \<and> ledger (fst (handleProxy (mockEnv 1) (post ''{model: gpt-4'') (NewServer exampleConfig T0))) = []
   \<and> map usageCount (rotator (fst (handleProxy (mockEnv 1) (post ''{model: gpt-4'')
        (NewServer exampleConfig T0)))) = [0, 0, 0, 0, 0]"
proof -
  have b: "Body (post ''{model: gpt-4'') = Some ''{model: gpt-4''" by (simp add: post_def)
  have p: "\<not> HasPrefix ''{model: gpt-4'' ''#roxy''" by (simp add: HasPrefix_def)
  have u: "json_Unmarshal (mockEnv 1) ''{model: gpt-4'' = None"
    by (simp add: mockEnv_def mockDecode_def HasPrefix_def)
  have s: "sent (NewServer exampleConfig T0) = []" "ledger (NewServer exampleConfig T0) = []"
    "map usageCount (rotator (NewServer exampleConfig T0)) = [0, 0, 0, 0, 0]"
    by (simp_all add: NewServer_def exampleConfig_def NewKeyRotator_def)
  show ?thesis
    using handleProxy_malformed[OF b p u, of "NewServer exampleConfig T0"] b p u s by simp
qed

section \<open>Facts about round-robin selection\<close>

lemma smod_pos: "0 < k \<Longrightarrow> 0 < l \<Longrightarrow> k smod l = k mod (l::int)"
  by (simp add: signed_modulo_int_def)

lemma getNextModelIndex_pos:
  assumes "0 < n" and "0 \<le> cursor s model"
  shows "getNextModelIndex model n s =
     (s\<lparr>modelCounters := (modelCounters s)(model \<mapsto> (cursor s model + 1) mod n)\<rparr>,
      Some ((cursor s model + 1) mod n))"
proof -
  have "(cursor s model + 1) smod n = (cursor s model + 1) mod n"
    using assms by (simp add: smod_pos)
  then show ?thesis
    using assms by (simp add: getNextModelIndex_def cursor_def Let_def)
qed

lemma index_in_range: "0 \<le> i \<Longrightarrow> i < int (length xs) \<Longrightarrow> index xs i = Some (xs ! nat i)"
  by (simp add: index_def)

lemma applyRules_roundrobin:
  assumes "find (\<lambda>r. SourceModel r = src) rules = Some rule"
    and "SelectionPolicy rule = ''roundrobin''" and "TargetModels rule \<noteq> []"
    and "0 \<le> cursor s src"
  shows "applyRules E src rules s =
     (s\<lparr>modelCounters := (modelCounters s)
          (src \<mapsto> (cursor s src + 1) mod int (length (TargetModels rule)))\<rparr>,
      Some (TargetModels rule ! visited (cursor s src) (length (TargetModels rule)) 1,
            getProviderForModel
              (TargetModels rule ! visited (cursor s src) (length (TargetModels rule)) 1)))"
  using assms(1)
proof (induction rules)
  case Nil
  then show ?case by simp
next
  case (Cons r rules)
  show ?case
  proof (cases "SourceModel r = src")
    case False
    with Cons show ?thesis by simp
  next
    case True
    with Cons.prems have r: "r = rule" by simp
    let ?n = "int (length (TargetModels rule))"
    have n: "0 < ?n" using assms(3) by simp
    have m: "0 \<le> (cursor s src + 1) mod ?n" "(cursor s src + 1) mod ?n < ?n"
      using n by simp_all
    have v: "nat ((cursor s src + 1) mod ?n) = visited (cursor s src) (length (TargetModels rule)) 1"
      using assms(4) n by (simp add: visited_def nat_mod_distrib nat_add_distrib)
    show ?thesis
      using True r assms(2) getNextModelIndex_pos[OF n assms(4)] index_in_range[OF m] v
      by (simp add: fun_upd_def)
  qed
qed

lemma resolveSeq_roundrobin:
  assumes "SelectionPolicy rule = ''roundrobin''" and "TargetModels rule \<noteq> []"
  shows "find (\<lambda>r. SourceModel r = src) (ModelRules (cfg s)) = Some rule \<Longrightarrow> 0 \<le> cursor s src \<Longrightarrow>
     resolveSeq E src n s =
       map (\<lambda>i. Some (TargetModels rule ! visited (cursor s src) (length (TargetModels rule)) i,
                       getProviderForModel
                         (TargetModels rule ! visited (cursor s src) (length (TargetModels rule)) i)))
         [1..<Suc n]"
proof (induction n arbitrary: s)
  case 0
  then show ?case by simp
next
  case (Suc n)
  let ?L = "length (TargetModels rule)"
  let ?c' = "(cursor s src + 1) mod int ?L"
  let ?s' = "s\<lparr>modelCounters := (modelCounters s)(src \<mapsto> ?c')\<rparr>"
  have L: "0 < ?L" using assms(2) by simp
  have step: "getTargetModel E src s =
      (?s', Some (TargetModels rule ! visited (cursor s src) ?L 1,
                  getProviderForModel (TargetModels rule ! visited (cursor s src) ?L 1)))"
    unfolding getTargetModel_def
    by (rule applyRules_roundrobin[OF Suc.prems(1) assms Suc.prems(2)])
  have c': "cursor ?s' src = ?c'" by (simp add: cursor_def)
  have nn: "0 \<le> cursor ?s' src" using L by (simp add: c')
  have f: "find (\<lambda>r. SourceModel r = src) (ModelRules (cfg ?s')) = Some rule"
    using Suc.prems(1) by simp
  have shift: "visited (cursor ?s' src) ?L i = visited (cursor s src) ?L (Suc i)" for i
  proof -
    have h: "nat ?c' = (nat (cursor s src) + 1) mod ?L"
      using Suc.prems(2) L by (simp add: nat_mod_distrib nat_add_distrib)
    have "visited (cursor ?s' src) ?L i = ((nat (cursor s src) + 1) mod ?L + i) mod ?L"
      by (simp only: c' visited_def h)
    also have "\<dots> = (nat (cursor s src) + 1 + i) mod ?L"
      by (rule mod_add_left_eq)
    also have "\<dots> = visited (cursor s src) ?L (Suc i)"
      by (simp add: visited_def)
    finally show ?thesis .
  qed
  have "[1..<Suc (Suc n)] = 1 # [Suc 1..<Suc (Suc n)]"
    by (rule upt_conv_Cons) simp
  also have "[Suc 1..<Suc (Suc n)] = map Suc [1..<Suc n]"
    by (rule map_Suc_upt[symmetric])
  finally have split: "[1..<Suc (Suc n)] = 1 # map Suc [1..<Suc n]" .
  have "resolveSeq E src (Suc n) s =
      Some (TargetModels rule ! visited (cursor s src) ?L 1,
            getProviderForModel (TargetModels rule ! visited (cursor s src) ?L 1))
      # resolveSeq E src n ?s'"
    by (simp only: resolveSeq.simps step prod.case)
  also have "resolveSeq E src n ?s' =
      map (\<lambda>i. Some (TargetModels rule ! visited (cursor s src) ?L (Suc i),
                       getProviderForModel (TargetModels rule ! visited (cursor s src) ?L (Suc i))))
        [1..<Suc n]"
    using Suc.IH[OF f nn] by (simp only: shift)
  finally show ?case
    by (simp only: split list.map map_map o_def)
qed

text \<open>
  C2, as stated, fails on where the cycle starts: the cursor is advanced before it is
  used, so from a fresh server the first resolution returns the second target. With
  targets \<open>[A, B, C]\<close> six resolutions visit \<open>B, C, A, B, C, A\<close>.
\<close>

theorem roundrobin_counterexample:
  "map (map_option fst) (resolveSeq (mockEnv 0) ''gpt-3.5-turbo'' 6 (NewServer threeTargets T0))
     = [Some ''claude-instant'', Some ''gpt-4'', Some ''gpt-3.5-turbo'',
        Some ''claude-instant'', Some ''gpt-4'', Some ''gpt-3.5-turbo'']
   \<and> map (map_option fst) (resolveSeq (mockEnv 0) ''gpt-3.5-turbo'' 6 (NewServer threeTargets T0))
     \<noteq> [Some ''gpt-3.5-turbo'', Some ''claude-instant'', Some ''gpt-4'',
        Some ''gpt-3.5-turbo'', Some ''claude-instant'', Some ''gpt-4'']"
proof -
  let ?rule = "\<lparr>SourceModel = ''gpt-3.5-turbo'',
                 TargetModels = [''gpt-3.5-turbo'', ''claude-instant'', ''gpt-4''],
                 SelectionPolicy = ''roundrobin''\<rparr>"
  have f: "find (\<lambda>r. SourceModel r = ''gpt-3.5-turbo'') (ModelRules (cfg (NewServer threeTargets T0)))
      = Some ?rule"
    by (simp add: NewServer_def threeTargets_def withRules_def)
  have c: "cursor (NewServer threeTargets T0) ''gpt-3.5-turbo'' = 0"
    by (simp add: NewServer_def cursor_def)
  have eq: "resolveSeq (mockEnv 0) ''gpt-3.5-turbo'' 6 (NewServer threeTargets T0) =
      map (\<lambda>i. Some (TargetModels ?rule ! visited (cursor (NewServer threeTargets T0) ''gpt-3.5-turbo'')
                         (length (TargetModels ?rule)) i,
                      getProviderForModel
                        (TargetModels ?rule ! visited (cursor (NewServer threeTargets T0) ''gpt-3.5-turbo'')
                         (length (TargetModels ?rule)) i))) [1..<Suc 6]"
    by (rule resolveSeq_roundrobin) (simp_all add: f c)
  have m: "map (map_option fst) (resolveSeq (mockEnv 0) ''gpt-3.5-turbo'' 6 (NewServer threeTargets T0))
      = map (\<lambda>i. Some ([''gpt-3.5-turbo'', ''claude-instant'', ''gpt-4''] ! (i mod 3))) [1..<Suc 6]"
    unfolding eq c by (simp add: visited_def)
  have u: "[1..<Suc 6] = [1, 2, 3, 4, 5, 6]" by (simp add: upt_rec)
  have v: "(1::nat) mod 3 = 1" "(2::nat) mod 3 = 2" "(3::nat) mod 3 = 0" "(4::nat) mod 3 = 1"
    "(5::nat) mod 3 = 2" "(6::nat) mod 3 = 0"
    by simp_all
  show ?thesis unfolding m u list.map v by simp
qed

text \<open>
  C2, amended. When the first rule for the source model is a round-robin rule with
  targets \<open>ts\<close>, each resolution advances the cursor of the source model by one
  modulo the number of targets and returns the target at the new cursor position;
  \<open>n\<close> resolutions in a row from cursor \<open>c\<close> return the targets at positions
  \<open>c + 1, c + 2, \<dots>, c + n\<close> modulo the number of targets. From a fresh cursor and
  targets \<open>[A, B, C]\<close> that is the fixed cyclic order \<open>B, C, A, B, C, A, \<dots>\<close>.
\<close>

theorem roundrobin_cycle:
  assumes "find (\<lambda>r. SourceModel r = src) (ModelRules (cfg s)) = Some rule"
    and "SelectionPolicy rule = ''roundrobin''" and "TargetModels rule \<noteq> []"
    and "0 \<le> cursor s src"
  shows "getTargetModel E src s =
     (s\<lparr>modelCounters := (modelCounters s)
          (src \<mapsto> (cursor s src + 1) mod int (length (TargetModels rule)))\<rparr>,
      Some (TargetModels rule ! nat ((cursor s src + 1) mod int (length (TargetModels rule))),
            getProviderForModel
              (TargetModels rule ! nat ((cursor s src + 1) mod int (length (TargetModels rule))))))
   \<and> resolveSeq E src n s =
       map (\<lambda>i. Some (TargetModels rule ! ((nat (cursor s src) + i) mod length (TargetModels rule)),
                       getProviderForModel
                         (TargetModels rule ! ((nat (cursor s src) + i) mod length (TargetModels rule)))))
         [1..<Suc n]"
proof
  have L: "0 < length (TargetModels rule)" using assms(3) by simp
  have v: "visited (cursor s src) (length (TargetModels rule)) 1
      = nat ((cursor s src + 1) mod int (length (TargetModels rule)))"
    using assms(4) L by (simp add: visited_def nat_mod_distrib nat_add_distrib)
  show "getTargetModel E src s =
     (s\<lparr>modelCounters := (modelCounters s)
          (src \<mapsto> (cursor s src + 1) mod int (length (TargetModels rule)))\<rparr>,
      Some (TargetModels rule ! nat ((cursor s src + 1) mod int (length (TargetModels rule))),
            getProviderForModel
              (TargetModels rule ! nat ((cursor s src + 1) mod int (length (TargetModels rule))))))"
    unfolding getTargetModel_def
    using applyRules_roundrobin[OF assms, of E] v by simp
  show "resolveSeq E src n s =
       map (\<lambda>i. Some (TargetModels rule ! ((nat (cursor s src) + i) mod length (TargetModels rule)),
                       getProviderForModel
                         (TargetModels rule ! ((nat (cursor s src) + i) mod length (TargetModels rule)))))
         [1..<Suc n]"
    using resolveSeq_roundrobin[OF assms(2,3,1,4), of E n] by (simp add: visited_def)
qed

theorem roundrobin_cycle_witness:
  "map (map_option fst) (resolveSeq (mockEnv 0) ''gpt-3.5-turbo'' 4 (NewServer exampleConfig T0))
     = [Some ''claude-instant'', Some ''gpt-3.5-turbo'', Some ''claude-instant'', Some ''gpt-3.5-turbo'']
   \<and> snd (getTargetModel (mockEnv 0) ''gpt-3.5-turbo'' (NewServer exampleConfig T0))
     = Some (''claude-instant'', ''anthropic'')
   \<and> cursor (fst (getTargetModel (mockEnv 0) ''gpt-3.5-turbo'' (NewServer exampleConfig T0)))
        ''gpt-3.5-turbo'' = 1"
proof -
  let ?rule = "\<lparr>SourceModel = ''gpt-3.5-turbo'',
                 TargetModels = [''gpt-3.5-turbo'', ''claude-instant''],
                 SelectionPolicy = ''roundrobin''\<rparr>"
  let ?s = "NewServer exampleConfig T0"
  have f: "find (\<lambda>r. SourceModel r = ''gpt-3.5-turbo'') (ModelRules (cfg ?s)) = Some ?rule"
    by (simp add: NewServer_def exampleConfig_def)
  have c: "cursor ?s ''gpt-3.5-turbo'' = 0"
    by (simp add: NewServer_def cursor_def)
  have p: "SelectionPolicy ?rule = ''roundrobin''" "TargetModels ?rule \<noteq> []" "0 \<le> cursor ?s ''gpt-3.5-turbo''"
    by (simp_all add: c)
  note th = roundrobin_cycle[OF f p, of "mockEnv 0" 4]
  have g: "getProviderForModel ''claude-instant'' = ''anthropic''"
    by (simp add: getProviderForModel_def HasPrefix_def)
  have one: "nat ((cursor ?s ''gpt-3.5-turbo'' + 1) mod int (length (TargetModels ?rule))) = 1"
    by (simp add: c)
  have a: "snd (getTargetModel (mockEnv 0) ''gpt-3.5-turbo'' ?s) = Some (''claude-instant'', ''anthropic'')"
    unfolding th[THEN conjunct1] one by (simp add: g)
  have b: "cursor (fst (getTargetModel (mockEnv 0) ''gpt-3.5-turbo'' ?s)) ''gpt-3.5-turbo'' = 1"
    unfolding th[THEN conjunct1] by (simp add: cursor_def NewServer_def)
  have len: "length (TargetModels ?rule) = 2" by simp
  have m: "map (map_option fst) (resolveSeq (mockEnv 0) ''gpt-3.5-turbo'' 4 ?s)
      = map (\<lambda>i. Some ([''gpt-3.5-turbo'', ''claude-instant''] ! (i mod 2))) [1..<Suc 4]"
    unfolding th[THEN conjunct2] c len by simp
  have u: "[1..<Suc 4] = [1, 2, 3, 4]" by (simp add: upt_rec)
  have v: "(1::nat) mod 2 = 1" "(2::nat) mod 2 = 0" "(3::nat) mod 2 = 1" "(4::nat) mod 2 = 0"
    by simp_all
  have d: "map (map_option fst) (resolveSeq (mockEnv 0) ''gpt-3.5-turbo'' 4 ?s)
     = [Some ''claude-instant'', Some ''gpt-3.5-turbo'', Some ''claude-instant'', Some ''gpt-3.5-turbo'']"
    unfolding m u list.map v by simp
  from a b d show ?thesis by simp
qed

section \<open>Facts about what the handler leaves alone\<close>

lemma charges_append [simp]: "charges (l @ l') = charges l @ charges l'"
  by (simp add: charges_def)

lemma charges_single [simp]: "charges [Granted k] = []" "charges [Charged k] = [k]"
  by (simp_all add: charges_def)

lemma onlyResets_refl [simp]: "onlyResets kr kr"
  by (simp add: onlyResets_def)

lemma onlyResets_trans:
  assumes "onlyResets kr kr'" and "onlyResets kr' kr''"
  shows "onlyResets kr kr''"
  unfolding onlyResets_def
proof (intro conjI allI impI)
  show "length kr'' = length kr" using assms by (simp add: onlyResets_def)
  fix j assume j: "j < length kr"
  then have "kr' ! j = kr ! j \<or> kr' ! j = (kr ! j)\<lparr>usageCount := 0\<rparr>"
    using assms(1) by (simp add: onlyResets_def)
  moreover have "kr'' ! j = kr' ! j \<or> kr'' ! j = (kr' ! j)\<lparr>usageCount := 0\<rparr>"
    using assms j by (simp add: onlyResets_def)
  ultimately show "kr'' ! j = kr ! j \<or> kr'' ! j = (kr ! j)\<lparr>usageCount := 0\<rparr>"
    by auto
qed

lemma GetKey_onlyResets: "onlyResets kr (fst (GetKey now p kr))"
  unfolding onlyResets_def
proof (intro conjI allI impI)
  show "length (fst (GetKey now p kr)) = length kr" by simp
  fix j assume "j < length kr"
  from GetKey_elem[OF this, of now p] usageCount_resetIfElapsed_cases[of now "kr ! j"]
  show "fst (GetKey now p kr) ! j = kr ! j \<or> fst (GetKey now p kr) ! j = (kr ! j)\<lparr>usageCount := 0\<rparr>"
    by auto
qed

lemma sameBooks_refl [simp]: "sameBooks s s"
  by (simp add: sameBooks_def)

lemma sameBooks_trans: "sameBooks s s' \<Longrightarrow> sameBooks s' s'' \<Longrightarrow> sameBooks s s''"
  by (auto simp add: sameBooks_def intro: onlyResets_trans)

lemma GetKeyS_rotator: "GetKeyS p s = (s', res) \<Longrightarrow> rotator s' = fst (GetKey (clock s) p (rotator s))"
  by (auto simp add: GetKeyS_def split: prod.splits sum.splits)

lemma GetKeyS_sameBooks: "GetKeyS p s = (s', res) \<Longrightarrow> sameBooks s s'"
  using GetKey_onlyResets[of "rotator s" "clock s" p]
  by (auto simp add: GetKeyS_def sameBooks_def split: prod.splits sum.splits)

lemma GetKeyS_granted:
  assumes "GetKeyS p s = (s', Inr key)"
  shows "key < length (rotator s')"
    and "usageCount (rotator s' ! key) <s MaxRPM (Config (rotator s' ! key))"
    and "Provider (Config (rotator s' ! key)) = p"
proof -
  have k: "snd (GetKey (clock s) p (rotator s)) = Inr key"
    using assms by (auto simp add: GetKeyS_def split: prod.splits sum.splits)
  note r = GetKeyS_rotator[OF assms]
  have e: "key < length (rotator s)" "eligible (clock s) p (rotator s ! key)"
    using k by (simp_all add: GetKey_Inr scanKeys_Some)
  show "key < length (rotator s')" using e(1) by (simp add: r)
  show "usageCount (rotator s' ! key) <s MaxRPM (Config (rotator s' ! key))"
    unfolding r by (rule GetKey_granted(3)[OF k])
  show "Provider (Config (rotator s' ! key)) = p"
    using e GetKey_Config[OF e(1), of "clock s" p] by (simp add: r eligible_def)
qed

text \<open>A key granted below its limit, then at most reset: its next increment does not wrap.\<close>

lemma charge_no_wrap:
  assumes "onlyResets kr kr'" and "key < length kr"
    and "usageCount (kr ! key) <s MaxRPM (Config (kr ! key))"
  shows "sint (usageCount (kr' ! key) + 1) = sint (usageCount (kr' ! key)) + 1"
proof -
  have "kr' ! key = kr ! key \<or> kr' ! key = (kr ! key)\<lparr>usageCount := 0\<rparr>"
    using assms(1,2) by (simp add: onlyResets_def)
  then show ?thesis
  proof
    assume "kr' ! key = kr ! key"
    with assms(3) have "sint (usageCount (kr' ! key)) < sint (MaxRPM (Config (kr ! key)))"
      by (simp add: word_sless_alt)
    then show ?thesis by (rule sint_incr[OF _ sint_le_max])
  next
    assume "kr' ! key = (kr ! key)\<lparr>usageCount := 0\<rparr>"
    then show ?thesis by simp
  qed
qed

lemma GetKeyS_frame:
  "GetKeyS p s = (s', res) \<Longrightarrow>
     clock s' = clock s \<and> sent s' = sent s \<and> modelCounters s' = modelCounters s"
  by (auto simp add: GetKeyS_def split: prod.splits sum.splits)

lemma GetKeyS_ledger:
  "GetKeyS p s = (s', Inr key) \<Longrightarrow> ledger s' = ledger s @ [Granted key]"
  "GetKeyS p s = (s', Inl err) \<Longrightarrow> ledger s' = ledger s"
  by (auto simp add: GetKeyS_def split: prod.splits sum.splits)

lemma ReportUsageS_frame [simp]:
  "cfg (ReportUsageS key t s) = cfg s" "cache (ReportUsageS key t s) = cache s"
  "clock (ReportUsageS key t s) = clock s" "sent (ReportUsageS key t s) = sent s"
  "modelCounters (ReportUsageS key t s) = modelCounters s"
  "ledger (ReportUsageS key t s) = ledger s @ [Charged key]"
  by (simp_all add: ReportUsageS_def)

lemma DoS_sameBooks: "DoS E req s = (res, s') \<Longrightarrow> sameBooks s s'"
  by (auto simp add: DoS_def sameBooks_def split: prod.splits)

lemma DoS_frame:
  "DoS E req s = (res, s') \<Longrightarrow>
     rotator s' = rotator s \<and> ledger s' = ledger s \<and> sent s' = sent s @ [req]"
  by (auto simp add: DoS_def split: prod.splits)

lemma fallbackLoop_books:
  "fallbackLoop E r req ms resp s = (s', res) \<Longrightarrow>
     sameBooks s s' \<and> (\<forall>out. res = Inl out \<longrightarrow> out = Responded 500 (''Failed to prepare request'' @ [CHR 0x0A]))"
proof (induction E r req ms resp s rule: fallbackLoop.induct)
  case (1 E r req resp s)
  then show ?case by auto
next
  case (2 E r req nextModel rest resp s)
  show ?case
  proof (cases "GetKeyS (getProviderForModel nextModel) s")
    case (Pair s1 g)
    note b1 = GetKeyS_sameBooks[OF Pair]
    show ?thesis
    proof (cases g)
      case (Inl err)
      with 2 Pair b1 show ?thesis
        by (auto intro: sameBooks_trans)
    next
      case (Inr nextKey)
      show ?thesis
      proof (cases "json_Marshal E (req\<lparr>Model := nextModel\<rparr>)")
        case None
        with 2 Pair Inr b1 show ?thesis by (auto simp add: http_Error_def)
      next
        case (Some modifiedBody)
        let ?url = "case providerURL (cfg s1) (getProviderForModel nextModel) of Some u \<Rightarrow> u | None \<Rightarrow> []"
        show ?thesis
        proof (cases "http_NewRequest E (Method r) ?url")
          case False
          with 2 Pair Inr Some b1 show ?thesis
            by (auto simp add: Let_def intro: sameBooks_trans)
        next
          case True
          obtain res s2 where d: "DoS E (proxyReq r ?url (getProviderForModel nextModel)
               (Key (Config (rotator s1 ! nextKey))) modifiedBody) s1 = (res, s2)"
            by (cases "DoS E (proxyReq r ?url (getProviderForModel nextModel)
               (Key (Config (rotator s1 ! nextKey))) modifiedBody) s1")
          note b2 = sameBooks_trans[OF b1 DoS_sameBooks[OF d]]
          show ?thesis
          proof (cases res)
            case (DoOK resp')
            with 2 Pair Inr Some True d b2 show ?thesis
              by (auto simp add: Let_def split: if_splits intro: sameBooks_trans)
          next
            case (DoErr resp')
            with 2 Pair Inr Some True d b2 show ?thesis
              by (auto simp add: Let_def intro: sameBooks_trans)
          qed
        qed
      qed
    qed
  qed
qed

lemma finish_frame:
  "finish k resp s = (s', out) \<Longrightarrow>
     cfg s' = cfg s \<and> ledger s' = ledger s \<and> rotator s' = rotator s \<and> sent s' = sent s
     \<and> clock s' = clock s \<and> ttl (cache s') = ttl (cache s)"
  by (auto simp add: finish_def Set_entry_def split: option.splits if_splits)

lemma finish_200:
  "finish k resp s = (s', Responded 200 b) \<Longrightarrow>
     entries (cache s') k = Some \<lparr>Data = b, ExpiresAt = clock s + ttl (cache s)\<rparr>"
  by (auto simp add: finish_def Set_entry_def http_Error_def split: option.splits if_splits)

lemma proxyWithKey_cases:
  assumes "proxyWithKey E r req k tm pv key s = (s', out)"
  shows "(\<exists>code b. out = Responded code b \<and> code \<noteq> 200 \<and> sameBooks s s')
       \<or> (\<exists>s2 resp. sameBooks s s2 \<and> finish k resp s2 = (s', out))"
proof (cases "json_Marshal E (req\<lparr>Model := tm\<rparr>)")
  case None
  with assms show ?thesis by (auto simp add: proxyWithKey_def http_Error_def)
next
  case (Some modifiedBody)
  show ?thesis
  proof (cases "providerURL (cfg s) pv")
    case None
    with assms Some show ?thesis by (auto simp add: proxyWithKey_def http_Error_def)
  next
    case (Some targetURL)
    note u = Some
    show ?thesis
    proof (cases "http_NewRequest E (Method r) targetURL")
      case False
      with assms \<open>json_Marshal E (req\<lparr>Model := tm\<rparr>) = Some modifiedBody\<close> u show ?thesis
        by (auto simp add: proxyWithKey_def http_Error_def)
    next
      case True
      obtain res s1 where d: "DoS E (proxyReq r targetURL pv (Key (Config (rotator s ! key))) modifiedBody) s
          = (res, s1)"
        by (cases "DoS E (proxyReq r targetURL pv (Key (Config (rotator s ! key))) modifiedBody) s")
      note b1 = DoS_sameBooks[OF d]
      show ?thesis
      proof (cases res)
        case (DoErr ro)
        with assms \<open>json_Marshal E (req\<lparr>Model := tm\<rparr>) = Some modifiedBody\<close> u True d b1
        show ?thesis by (auto simp add: proxyWithKey_def http_Error_def)
      next
        case (DoOK resp)
        show ?thesis
        proof (cases "StatusCode resp = 429")
          case False
          with assms \<open>json_Marshal E (req\<lparr>Model := tm\<rparr>) = Some modifiedBody\<close> u True d b1 DoOK
          show ?thesis by (auto simp add: proxyWithKey_def http_Error_def)
        next
          case rate: True
          show ?thesis
          proof (cases "find (\<lambda>rule. SourceModel rule = tm \<and> SelectionPolicy rule = ''fallback'')
                          (ModelRules (cfg s1))")
            case None
            with assms \<open>json_Marshal E (req\<lparr>Model := tm\<rparr>) = Some modifiedBody\<close> u True d b1 DoOK rate
            show ?thesis by (auto simp add: proxyWithKey_def http_Error_def)
          next
            case (Some rule)
            obtain s2 lres where l: "fallbackLoop E r (req\<lparr>Model := tm\<rparr>) (drop 1 (TargetModels rule))
                (Some resp) s1 = (s2, lres)"
              by (cases "fallbackLoop E r (req\<lparr>Model := tm\<rparr>) (drop 1 (TargetModels rule)) (Some resp) s1")
            note fl = fallbackLoop_books[OF l]
            note b2 = sameBooks_trans[OF b1 fl[THEN conjunct1]]
            show ?thesis
            proof (cases lres)
              case (Inl o1)
              with assms \<open>json_Marshal E (req\<lparr>Model := tm\<rparr>) = Some modifiedBody\<close> u True d DoOK rate Some l
              have e: "s' = s2" "out = o1" by (auto simp add: proxyWithKey_def http_Error_def)
              from fl Inl have "o1 = Responded 500 (''Failed to prepare request'' @ [CHR 0x0A])"
                by simp
              with e b2 show ?thesis by auto
            next
              case (Inr resp')
              with assms \<open>json_Marshal E (req\<lparr>Model := tm\<rparr>) = Some modifiedBody\<close> u True d DoOK rate Some l
              have "finish k resp' s2 = (s', out)" by (auto simp add: proxyWithKey_def http_Error_def)
              with b2 show ?thesis by auto
            qed
          qed
        qed
      qed
    qed
  qed
qed

section \<open>Facts about unsupported providers\<close>

lemma tryFallback_frame:
  "tryFallback ms s = (s', res) \<Longrightarrow>
     cfg s' = cfg s \<and> cache s' = cache s \<and> clock s' = clock s \<and> sent s' = sent s
     \<and> (\<forall>m p. res = Some (m, p) \<longrightarrow> p = getProviderForModel m)"
proof (induction ms arbitrary: s)
  case Nil
  then show ?case by auto
next
  case (Cons m ms)
  obtain s1 g where g: "GetKeyS (getProviderForModel m) s = (s1, g)"
    by (cases "GetKeyS (getProviderForModel m) s")
  note f = GetKeyS_frame[OF g] GetKeyS_sameBooks[OF g]
  show ?case
  proof (cases g)
    case (Inl err)
    with Cons.prems g have "tryFallback ms s1 = (s', res)" by simp
    from Cons.IH[OF this] f show ?thesis by (simp add: sameBooks_def)
  next
    case (Inr key)
    with Cons.prems g f show ?thesis by (auto simp add: sameBooks_def)
  qed
qed

lemma getNextModelIndex_frame:
  "getNextModelIndex m n s = (s', res) \<Longrightarrow>
     cfg s' = cfg s \<and> cache s' = cache s \<and> clock s' = clock s \<and> sent s' = sent s"
  by (auto simp add: getNextModelIndex_def Let_def split: if_splits)

lemma applyRules_frame:
  "applyRules E src rules s = (s', res) \<Longrightarrow>
     cfg s' = cfg s \<and> cache s' = cache s \<and> clock s' = clock s \<and> sent s' = sent s
     \<and> (\<forall>m p. res = Some (m, p) \<longrightarrow> p = getProviderForModel m)"
proof (induction rules arbitrary: s)
  case Nil
  then show ?case by auto
next
  case (Cons rule rules)
  show ?case
  proof (cases "SourceModel rule = src")
    case False
    with Cons.prems have "applyRules E src rules s = (s', res)" by simp
    from Cons.IH[OF this] show ?thesis .
  next
    case True
    consider (random) "SelectionPolicy rule = ''random''"
      | (rr) "SelectionPolicy rule = ''roundrobin''"
      | (fb) "SelectionPolicy rule = ''fallback''"
      | (other) "SelectionPolicy rule \<noteq> ''random''" "SelectionPolicy rule \<noteq> ''roundrobin''"
          "SelectionPolicy rule \<noteq> ''fallback''"
      by blast
    then show ?thesis
    proof cases
      case random
      with True Cons.prems show ?thesis
        by (auto simp add: Let_def split: if_splits option.splits)
    next
      case rr
      obtain s1 i where i: "getNextModelIndex src (int (length (TargetModels rule))) s = (s1, i)"
        by (cases "getNextModelIndex src (int (length (TargetModels rule))) s")
      from rr True Cons.prems i getNextModelIndex_frame[OF i] show ?thesis
        by (auto split: option.splits)
    next
      case fb
      obtain s1 t where t: "tryFallback (TargetModels rule) s = (s1, t)"
        by (cases "tryFallback (TargetModels rule) s")
      note f = tryFallback_frame[OF t]
      show ?thesis
      proof (cases t)
        case None
        with fb True Cons.prems t have "applyRules E src rules s1 = (s', res)" by simp
        from Cons.IH[OF this] f show ?thesis by simp
      next
        case (Some a)
        with fb True Cons.prems t f show ?thesis by auto
      qed
    next
      case other
      with True Cons.prems have "applyRules E src rules s = (s', res)" by simp
      from Cons.IH[OF this] show ?thesis .
    qed
  qed
qed

lemma getTargetModel_frame:
  "getTargetModel E src s = (s', res) \<Longrightarrow>
     cfg s' = cfg s \<and> cache s' = cache s \<and> clock s' = clock s \<and> sent s' = sent s
     \<and> (\<forall>m p. res = Some (m, p) \<longrightarrow> p = getProviderForModel m)"
  unfolding getTargetModel_def by (rule applyRules_frame)

lemma getNextModelIndex_books:
  "getNextModelIndex m n s = (s', res) \<Longrightarrow> rotator s' = rotator s \<and> ledger s' = ledger s"
  by (auto simp add: getNextModelIndex_def Let_def split: if_splits)

text \<open>
  What resolution does to the keys: nothing, or one probe of a fallback rule, which
  acquires a key of the resolved model's provider and reports it at once.
\<close>

lemma tryFallback_ledger:
  "tryFallback ms s = (s', res) \<Longrightarrow>
     (res = None \<and> ledger s' = ledger s)
     \<or> (\<exists>m k. res = Some (m, getProviderForModel m)
           \<and> ledger s' = ledger s @ [Granted k, Charged k]
           \<and> k < length (rotator s')
           \<and> Provider (Config (rotator s' ! k)) = getProviderForModel m)"
proof (induction ms arbitrary: s)
  case Nil
  then show ?case by auto
next
  case (Cons m ms)
  obtain s1 g where g: "GetKeyS (getProviderForModel m) s = (s1, g)"
    by (cases "GetKeyS (getProviderForModel m) s")
  show ?case
  proof (cases g)
    case (Inl err)
    with Cons.prems g have t: "tryFallback ms s1 = (s', res)" by simp
    from Cons.IH[OF t] GetKeyS_ledger(2)[OF g[unfolded Inl]] show ?thesis by simp
  next
    case (Inr key)
    note gr = GetKeyS_granted[OF g[unfolded Inr]]
    from Cons.prems g Inr have e: "s' = ReportUsageS key 0 s1" "res = Some (m, getProviderForModel m)"
      by auto
    have "ledger s' = ledger s @ [Granted key, Charged key]"
      using e(1) GetKeyS_ledger(1)[OF g[unfolded Inr]] by simp
    moreover have "key < length (rotator s')"
      using gr(1) e(1) by (simp add: ReportUsageS_def)
    moreover have "Provider (Config (rotator s' ! key)) = getProviderForModel m"
      using gr(3) e(1) by (simp add: ReportUsageS_def ReportUsage_Config)
    ultimately show ?thesis using e(2) by auto
  qed
qed

lemma applyRules_ledger:
  "applyRules E src rules s = (s', res) \<Longrightarrow>
     ledger s' = ledger s
     \<or> (\<exists>m k. res = Some (m, getProviderForModel m)
           \<and> ledger s' = ledger s @ [Granted k, Charged k]
           \<and> k < length (rotator s')
           \<and> Provider (Config (rotator s' ! k)) = getProviderForModel m)"
proof (induction rules arbitrary: s)
  case Nil
  then show ?case by auto
next
  case (Cons rule rules)
  show ?case
  proof (cases "SourceModel rule = src")
    case False
    with Cons.prems have "applyRules E src rules s = (s', res)" by simp
    from Cons.IH[OF this] show ?thesis .
  next
    case True
    consider (random) "SelectionPolicy rule = ''random''"
      | (rr) "SelectionPolicy rule = ''roundrobin''"
      | (fb) "SelectionPolicy rule = ''fallback''"
      | (other) "SelectionPolicy rule \<noteq> ''random''" "SelectionPolicy rule \<noteq> ''roundrobin''"
          "SelectionPolicy rule \<noteq> ''fallback''"
      by blast
    then show ?thesis
    proof cases
      case random
      with True Cons.prems show ?thesis
        by (auto simp add: Let_def split: if_splits option.splits)
    next
      case rr
      obtain s1 i where i: "getNextModelIndex src (int (length (TargetModels rule))) s = (s1, i)"
        by (cases "getNextModelIndex src (int (length (TargetModels rule))) s")
      from rr True Cons.prems i getNextModelIndex_books[OF i] show ?thesis
        by (auto split: option.splits)
    next
      case fb
      obtain s1 t where t: "tryFallback (TargetModels rule) s = (s1, t)"
        by (cases "tryFallback (TargetModels rule) s")
      note f = tryFallback_ledger[OF t]
      show ?thesis
      proof (cases t)
        case None
        with fb True Cons.prems t have "applyRules E src rules s1 = (s', res)" by simp
        from Cons.IH[OF this] f None show ?thesis by simp
      next
        case (Some a)
        with fb True Cons.prems t have "s' = s1" "res = t" by auto
        with f Some show ?thesis by simp
      qed
    next
      case other
      with True Cons.prems have "applyRules E src rules s = (s', res)" by simp
      from Cons.IH[OF this] show ?thesis .
    qed
  qed
qed

lemma applyRules_no_fallback:
  "(\<forall>rule\<in>set rules. SourceModel rule = src \<longrightarrow> SelectionPolicy rule \<noteq> ''fallback'') \<Longrightarrow>
   applyRules E src rules s = (s', res) \<Longrightarrow> rotator s' = rotator s \<and> ledger s' = ledger s"
proof (induction rules arbitrary: s)
  case Nil
  then show ?case by auto
next
  case (Cons rule rules)
  from Cons.prems(1)
  have rest: "\<forall>rule\<in>set rules. SourceModel rule = src \<longrightarrow> SelectionPolicy rule \<noteq> ''fallback''"
    and this_rule: "SourceModel rule = src \<longrightarrow> SelectionPolicy rule \<noteq> ''fallback''"
    by simp_all
  show ?case
  proof (cases "SourceModel rule = src")
    case False
    with Cons.prems(2) have "applyRules E src rules s = (s', res)" by simp
    from Cons.IH[OF rest this] show ?thesis .
  next
    case True
    with this_rule have nf: "SelectionPolicy rule \<noteq> ''fallback''" by simp
    consider (random) "SelectionPolicy rule = ''random''"
      | (rr) "SelectionPolicy rule = ''roundrobin''"
      | (other) "SelectionPolicy rule \<noteq> ''random''" "SelectionPolicy rule \<noteq> ''roundrobin''"
      by blast
    then show ?thesis
    proof cases
      case random
      with True Cons.prems(2) show ?thesis
        by (auto simp add: Let_def split: if_splits option.splits)
    next
      case rr
      obtain s1 i where i: "getNextModelIndex src (int (length (TargetModels rule))) s = (s1, i)"
        by (cases "getNextModelIndex src (int (length (TargetModels rule))) s")
      from rr True Cons.prems(2) i getNextModelIndex_books[OF i] show ?thesis
        by (auto split: option.splits)
    next
      case other
      with True nf Cons.prems(2) have "applyRules E src rules s = (s', res)" by simp
      from Cons.IH[OF rest this] show ?thesis .
    qed
  qed
qed

text \<open>
  A request for a model that a fallback rule resolves to an OpenRouter model: the
  rule's probe acquires the OpenRouter key and reports it, the handler acquires it
  again, answers 400 and reports it again. Nothing is sent upstream and the key
  has been charged twice.
\<close>

lemma unsupported_provider_after_probe:
  "snd (getTargetModel (mockEnv 1) ''gpt-4'' (NewServer autoFallback T0))
     = Some (''openrouter/auto'', ''openrouter'')
   \<and> ledger (fst (getTargetModel (mockEnv 1) ''gpt-4'' (NewServer autoFallback T0)))
     = [Granted 3, Charged 3]
   \<and> snd (handleProxy (mockEnv 1) (post ''model:gpt-4'') (NewServer autoFallback T0))
     = Responded 400 (''Unsupported provider'' @ [CHR 0x0A])
   \<and> sent (fst (handleProxy (mockEnv 1) (post ''model:gpt-4'') (NewServer autoFallback T0))) = []
   \<and> ledger (fst (handleProxy (mockEnv 1) (post ''model:gpt-4'') (NewServer autoFallback T0)))
     = [Granted 3, Charged 3, Granted 3, Charged 3]
   \<and> map usageCount (rotator (fst (handleProxy (mockEnv 1) (post ''model:gpt-4'')
        (NewServer autoFallback T0)))) = [0, 0, 0, 2, 0]"
  by code_simp

lemma handleProxy_granted:
  assumes "Body r = Some body" and "\<not> HasPrefix body ''#roxy''"
    and "json_Unmarshal E body = Some req"
    and "Get (clock s) (generateCacheKey E req) (cache s) = None"
    and "getTargetModel E (Model req) s = (s1, Some (targetModel, provider))"
    and "GetKeyS provider s1 = (s2, Inr key)"
  shows "handleProxy E r s =
     (ReportUsageS key 0
        (fst (proxyWithKey E r req (generateCacheKey E req) targetModel provider key s2)),
      snd (proxyWithKey E r req (generateCacheKey E req) targetModel provider key s2))"
  using assms by (simp add: handleProxy_def Let_def split: prod.splits)

text \<open>
  C10, as stated, fails when no key of the provider can be handed out: the key is
  acquired before the provider is looked at, so a request for an OpenRouter model on
  a server without an OpenRouter key is answered 429 "No available API keys", and no
  key is acquired or charged.
\<close>

theorem unsupported_provider_counterexample:
  "snd (getTargetModel (mockEnv 1) ''openrouter/auto'' (NewServer twoProviders T0))
     = Some (''openrouter/auto'', ''openrouter'')
   \<and> snd (handleProxy (mockEnv 1) (post ''model:openrouter/auto'') (NewServer twoProviders T0))
     = Responded 429 (''No available API keys'' @ [CHR 0x0A])
   \<and> ledger (fst (handleProxy (mockEnv 1) (post ''model:openrouter/auto'')
        (NewServer twoProviders T0))) = []
   \<and> sent (fst (handleProxy (mockEnv 1) (post ''model:openrouter/auto'')
        (NewServer twoProviders T0))) = []"
  by code_simp

text \<open>
  C10, amended. For a request that reaches routing (a body that decodes, no cache
  hit) and whose resolved model is classified to \<open>openrouter\<close> or \<open>chutes\<close>, the
  handler asks the rotator for a key of that provider. If one is handed out (and the
  request can be encoded), the handler answers 400 "Unsupported provider", sends
  nothing upstream, and the deferred report raises the counter of that key by exactly
  one, without wrapping: after the key events of resolution the request has added
  this one grant and this one charge. If no key is handed out the answer is 429
  "No available API keys" instead, nothing is sent upstream, and after resolution no
  key is acquired or charged. Resolution itself leaves the keys and the key events
  alone when no rule for the requested model has the policy \<open>fallback\<close>; otherwise
  it has added either nothing or the one grant and the one charge of a rule's
  probe, on a key of the same provider, which come on top of the handler's own.
\<close>

theorem unsupported_provider:
  assumes "Body r = Some body" and "\<not> HasPrefix body ''#roxy''"
    and "json_Unmarshal E body = Some req"
    and "Get (clock s) (generateCacheKey E req) (cache s) = None"
    and "getTargetModel E (Model req) s = (s1, Some (targetModel, provider))"
    and "getProviderForModel targetModel = ''openrouter''
         \<or> getProviderForModel targetModel = ''chutes''"
    and "json_Marshal E (req\<lparr>Model := targetModel\<rparr>) \<noteq> None"
  shows "(GetKeyS provider s1 = (s2, Inr key) \<longrightarrow>
           handleProxy E r s
             = (ReportUsageS key 0 s2, Responded 400 (''Unsupported provider'' @ [CHR 0x0A]))
           \<and> sent (fst (handleProxy E r s)) = sent s
           \<and> ledger (fst (handleProxy E r s)) = ledger s1 @ [Granted key, Charged key]
           \<and> Provider (Config (rotator s2 ! key)) = getProviderForModel targetModel
           \<and> usageCount (rotator (fst (handleProxy E r s)) ! key)
               = usageCount (rotator s2 ! key) + 1
           \<and> sint (usageCount (rotator (fst (handleProxy E r s)) ! key))
               = sint (usageCount (rotator s2 ! key)) + 1
           \<and> rotator (fst (handleProxy E r s))
               = ReportUsage (clock s) key 0 (fst (GetKey (clock s) provider (rotator s1))))
       \<and> (GetKeyS provider s1 = (s2, Inl err) \<longrightarrow>
           handleProxy E r s = (s2, Responded 429 (''No available API keys'' @ [CHR 0x0A]))
           \<and> sent s2 = sent s \<and> ledger s2 = ledger s1
           \<and> rotator s2 = fst (GetKey (clock s) provider (rotator s1)))
       \<and> (ledger s1 = ledger s
           \<or> (\<exists>k. ledger s1 = ledger s @ [Granted k, Charged k]
                 \<and> k < length (rotator s1)
                 \<and> Provider (Config (rotator s1 ! k)) = getProviderForModel targetModel))
       \<and> ((\<forall>rule\<in>set (ModelRules (cfg s)).
              SourceModel rule = Model req \<longrightarrow> SelectionPolicy rule \<noteq> ''fallback'') \<longrightarrow>
           rotator s1 = rotator s \<and> ledger s1 = ledger s)"
proof (intro conjI impI)
  note gt = getTargetModel_frame[OF assms(5)]
  then have p: "provider = getProviderForModel targetModel" by simp
  have ck: "clock s1 = clock s" using gt by simp
  note ar = assms(5)[unfolded getTargetModel_def]
  show "ledger s1 = ledger s
      \<or> (\<exists>k. ledger s1 = ledger s @ [Granted k, Charged k]
            \<and> k < length (rotator s1)
            \<and> Provider (Config (rotator s1 ! k)) = getProviderForModel targetModel)"
    using applyRules_ledger[OF ar] by auto
  {
    assume "\<forall>rule\<in>set (ModelRules (cfg s)).
        SourceModel rule = Model req \<longrightarrow> SelectionPolicy rule \<noteq> ''fallback''"
    note nf = applyRules_no_fallback[OF this ar]
    show "rotator s1 = rotator s" using nf by simp
    show "ledger s1 = ledger s" using nf by simp
  }
  {
    assume g: "GetKeyS provider s1 = (s2, Inl err)"
    show "handleProxy E r s = (s2, Responded 429 (''No available API keys'' @ [CHR 0x0A]))"
      using assms(1-5) g by (simp add: handleProxy_def http_Error_def)
    show "sent s2 = sent s" using GetKeyS_frame[OF g] gt by simp
    show "ledger s2 = ledger s1" by (rule GetKeyS_ledger(2)[OF g])
    show "rotator s2 = fst (GetKey (clock s) provider (rotator s1))"
      using GetKeyS_rotator[OF g] by (simp add: ck)
  }
  assume g: "GetKeyS provider s1 = (s2, Inr key)"
  note gr = GetKeyS_granted[OF g]
  have c: "cfg s2 = cfg s1" using GetKeyS_sameBooks[OF g] by (simp add: sameBooks_def)
  have u: "providerURL (cfg s2) provider = None"
    using assms(6) p by (auto simp add: providerURL_def)
  have w: "proxyWithKey E r req (generateCacheKey E req) targetModel provider key s2
      = (s2, Responded 400 (''Unsupported provider'' @ [CHR 0x0A]))"
    using assms(7) u by (auto simp add: proxyWithKey_def http_Error_def)
  show h: "handleProxy E r s
      = (ReportUsageS key 0 s2, Responded 400 (''Unsupported provider'' @ [CHR 0x0A]))"
    using handleProxy_granted[OF assms(1-5) g] w by simp
  show "sent (fst (handleProxy E r s)) = sent s"
    using h GetKeyS_frame[OF g] gt by simp
  show "ledger (fst (handleProxy E r s)) = ledger s1 @ [Granted key, Charged key]"
    using h GetKeyS_ledger(1)[OF g] by simp
  show "Provider (Config (rotator s2 ! key)) = getProviderForModel targetModel"
    using gr(3) by (simp add: p)
  show uc: "usageCount (rotator (fst (handleProxy E r s)) ! key) = usageCount (rotator s2 ! key) + 1"
    using h gr(1) by (simp add: ReportUsageS_def ReportUsage_usageCount)
  have "sint (usageCount (rotator s2 ! key)) < sint (MaxRPM (Config (rotator s2 ! key)))"
    using gr(2) by (simp add: word_sless_alt)
  from sint_incr[OF this sint_le_max]
  show "sint (usageCount (rotator (fst (handleProxy E r s)) ! key))
      = sint (usageCount (rotator s2 ! key)) + 1"
    by (simp only: uc)
  show "rotator (fst (handleProxy E r s))
      = ReportUsage (clock s) key 0 (fst (GetKey (clock s) provider (rotator s1)))"
    using h GetKeyS_rotator[OF g] GetKeyS_frame[OF g] by (simp add: ReportUsageS_def ck)
qed

theorem unsupported_provider_witness:
  "handleProxy (mockEnv 1) (post ''model:openrouter/auto'') (NewServer exampleConfig T0)
     = (ReportUsageS 3 0 (fst (GetKeyS ''openrouter'' (NewServer exampleConfig T0))),
        Responded 400 (''Unsupported provider'' @ [CHR 0x0A]))
   \<and> sent (fst (handleProxy (mockEnv 1) (post ''model:openrouter/auto'')
        (NewServer exampleConfig T0))) = []
   \<and> ledger (fst (handleProxy (mockEnv 1) (post ''model:openrouter/auto'')
        (NewServer exampleConfig T0))) = [Granted 3, Charged 3]
   \<and> usageCount (rotator (fst (handleProxy (mockEnv 1) (post ''model:openrouter/auto'')
        (NewServer exampleConfig T0))) ! 3) = 1
   \<and> sint (usageCount (rotator (fst (handleProxy (mockEnv 1) (post ''model:openrouter/auto'')
        (NewServer exampleConfig T0))) ! 3)) = 1
   \<and> handleProxy (mockEnv 1) (post ''model:openrouter/auto'') (NewServer twoProviders T0)
     = (fst (GetKeyS ''openrouter'' (NewServer twoProviders T0)),
        Responded 429 (''No available API keys'' @ [CHR 0x0A]))
   \<and> ledger (fst (GetKeyS ''openrouter'' (NewServer twoProviders T0))) = []"
proof -
  let ?s = "NewServer exampleConfig T0"
  let ?E = "mockEnv 1"
  let ?s2 = "fst (GetKeyS ''openrouter'' ?s)"
  have b: "Body (post ''model:openrouter/auto'') = Some ''model:openrouter/auto''"
    by (simp add: post_def)
  have c: "\<not> HasPrefix ''model:openrouter/auto'' ''#roxy''" by (simp add: HasPrefix_def)
  have d: "json_Unmarshal ?E ''model:openrouter/auto'' = Some autoRequest"
    by (simp add: mockEnv_def mockDecode_def HasPrefix_def autoRequest_def)
  have m: "Get (clock ?s) (generateCacheKey ?E autoRequest) (cache ?s) = None"
    by (simp add: Get_def NewServer_def New_def)
  have t: "getTargetModel ?E (Model autoRequest) ?s = (?s, Some (''openrouter/auto'', ''openrouter''))"
    by (simp add: getTargetModel_def NewServer_def exampleConfig_def autoRequest_def
        getProviderForModel_def HasPrefix_def)
  have p: "getProviderForModel ''openrouter/auto'' = ''openrouter''
         \<or> getProviderForModel ''openrouter/auto'' = ''chutes''"
    by (simp add: getProviderForModel_def HasPrefix_def)
  have j: "json_Marshal ?E (autoRequest\<lparr>Model := ''openrouter/auto''\<rparr>) \<noteq> None"
    by (simp add: mockEnv_def)
  have "snd (GetKeyS ''openrouter'' ?s) = Inr 3" by code_simp
  then have g: "GetKeyS ''openrouter'' ?s = (?s2, Inr 3)"
    by (simp add: prod_eq_iff)
  have l: "ledger ?s = []" "sent ?s = []" by (simp_all add: NewServer_def)
  have u: "usageCount (rotator ?s2 ! 3) = 0" by code_simp
  note th = unsupported_provider[OF b c d m t p j, where ?s2.0 = ?s2 and key = 3,
      THEN conjunct1, rule_format, OF g]
  have a1: "handleProxy ?E (post ''model:openrouter/auto'') ?s
      = (ReportUsageS 3 0 ?s2, Responded 400 (''Unsupported provider'' @ [CHR 0x0A]))"
    by (rule th[THEN conjunct1])
  have a2: "sent (fst (handleProxy ?E (post ''model:openrouter/auto'') ?s)) = []"
    using th[THEN conjunct2, THEN conjunct1] by (simp only: l)
  have a3: "ledger (fst (handleProxy ?E (post ''model:openrouter/auto'') ?s)) = [Granted 3, Charged 3]"
    using th[THEN conjunct2, THEN conjunct2, THEN conjunct1] by (simp only: l append_Nil)
  have "usageCount (rotator (fst (handleProxy ?E (post ''model:openrouter/auto'') ?s)) ! 3) = 0 + 1"
    using th[THEN conjunct2, THEN conjunct2, THEN conjunct2, THEN conjunct2, THEN conjunct1]
    by (simp only: u)
  then have a4: "usageCount (rotator (fst (handleProxy ?E (post ''model:openrouter/auto'') ?s)) ! 3) = 1"
    by (simp only: add_0)
  have "sint (usageCount (rotator (fst (handleProxy ?E (post ''model:openrouter/auto'') ?s)) ! 3))
      = sint (0 :: go_int) + 1"
    using th[THEN conjunct2, THEN conjunct2, THEN conjunct2, THEN conjunct2, THEN conjunct2,
        THEN conjunct1]
    by (simp only: u)
  then have a5: "sint (usageCount (rotator (fst (handleProxy ?E (post ''model:openrouter/auto'') ?s)) ! 3)) = 1"
    by (simp only: sint_0 add_0)
  let ?t = "NewServer twoProviders T0"
  let ?t2 = "fst (GetKeyS ''openrouter'' ?t)"
  have m': "Get (clock ?t) (generateCacheKey ?E autoRequest) (cache ?t) = None"
    by (simp add: Get_def NewServer_def New_def)
  have t': "getTargetModel ?E (Model autoRequest) ?t = (?t, Some (''openrouter/auto'', ''openrouter''))"
    by (simp add: getTargetModel_def NewServer_def twoProviders_def withKeys_def exampleConfig_def
        autoRequest_def getProviderForModel_def HasPrefix_def)
  have "snd (GetKeyS ''openrouter'' ?t) = Inl (NoAvailableKeys ''openrouter'')" by code_simp
  then have g': "GetKeyS ''openrouter'' ?t = (?t2, Inl (NoAvailableKeys ''openrouter''))"
    by (simp add: prod_eq_iff)
  have l': "ledger ?t = []" by (simp add: NewServer_def)
  note th' = unsupported_provider[OF b c d m' t' p j, where ?s2.0 = ?t2
      and err = "NoAvailableKeys ''openrouter''", THEN conjunct2, THEN conjunct1, rule_format, OF g']
  have a6: "handleProxy ?E (post ''model:openrouter/auto'') ?t
      = (?t2, Responded 429 (''No available API keys'' @ [CHR 0x0A]))"
    by (rule th'[THEN conjunct1])
  have a7: "ledger ?t2 = []"
    using th'[THEN conjunct2, THEN conjunct2, THEN conjunct1] by (simp only: l')
  from a1 a2 a3 a4 a5 a6 a7 show ?thesis by (intro conjI)
qed

section \<open>Facts about the charge for the first key\<close>

lemma proxyWithKey_charges:
  assumes "proxyWithKey E r req k tm pv key s = (s', out)"
  shows "charges (ledger s') = charges (ledger s)"
  using proxyWithKey_cases[OF assms]
proof (elim disjE exE conjE)
  fix code b assume "sameBooks s s'"
  then show ?thesis by (simp add: sameBooks_def)
next
  fix s2 resp assume "sameBooks s s2" "finish k resp s2 = (s', out)"
  with finish_frame[of k resp s2 s' out] show ?thesis by (simp add: sameBooks_def)
qed

lemma proxyWithKey_onlyResets:
  assumes "proxyWithKey E r req k tm pv key s = (s', out)"
  shows "onlyResets (rotator s) (rotator s')"
  using proxyWithKey_cases[OF assms]
proof (elim disjE exE conjE)
  fix code b assume "sameBooks s s'"
  then show ?thesis by (simp add: sameBooks_def)
next
  fix s2 resp assume "sameBooks s s2" "finish k resp s2 = (s', out)"
  with finish_frame[of k resp s2 s' out] show ?thesis by (simp add: sameBooks_def)
qed

text \<open>
  C3, as stated, fails: a key can be charged although nothing was sent upstream with
  it. A request for an OpenRouter model on the example configuration is refused as
  "Unsupported provider" before any upstream call, and the OpenRouter key it had
  acquired is charged all the same.
\<close>

theorem charged_counterexample:
  "snd (handleProxy (mockEnv 1) (post ''model:openrouter/auto'') (NewServer exampleConfig T0))
     = Responded 400 (''Unsupported provider'' @ [CHR 0x0A])
   \<and> sent (fst (handleProxy (mockEnv 1) (post ''model:openrouter/auto'')
        (NewServer exampleConfig T0))) = []
   \<and> ledger (fst (handleProxy (mockEnv 1) (post ''model:openrouter/auto'')
        (NewServer exampleConfig T0))) = [Granted 3, Charged 3]
   \<and> map usageCount (rotator (fst (handleProxy (mockEnv 1) (post ''model:openrouter/auto'')
        (NewServer exampleConfig T0)))) = [0, 0, 0, 1, 0]"
  by code_simp

text \<open>
  C3, amended. Once the key for the first candidate has been handed out, the handler
  reports it as used exactly once, as its last act, on every path: whether or not an
  upstream call was made with it, and whatever the outcome. The charge is one
  usage unit on top of the counter as the rest of the handler left it, and the
  counter does not wrap around on it.
\<close>

theorem first_key_charged_once:
  assumes "Body r = Some body" and "\<not> HasPrefix body ''#roxy''"
    and "json_Unmarshal E body = Some req"
    and "Get (clock s) (generateCacheKey E req) (cache s) = None"
    and "getTargetModel E (Model req) s = (s1, Some (targetModel, provider))"
    and "GetKeyS provider s1 = (s2, Inr key)"
    and "proxyWithKey E r req (generateCacheKey E req) targetModel provider key s2 = (s3, out)"
  shows "handleProxy E r s = (ReportUsageS key 0 s3, out)
       \<and> count_list (charges (ledger (fst (handleProxy E r s)))) key
           = count_list (charges (ledger s2)) key + 1
       \<and> last (ledger (fst (handleProxy E r s))) = Charged key
       \<and> (key < length (rotator s3) \<longrightarrow>
            usageCount (rotator (fst (handleProxy E r s)) ! key)
              = usageCount (rotator s3 ! key) + 1)
       \<and> key < length (rotator s3)
       \<and> sint (usageCount (rotator (fst (handleProxy E r s)) ! key))
           = sint (usageCount (rotator s3 ! key)) + 1"
proof -
  have h: "handleProxy E r s = (ReportUsageS key 0 s3, out)"
    using handleProxy_granted[OF assms(1-6)] assms(7) by simp
  have c: "charges (ledger s3) = charges (ledger s2)"
    by (rule proxyWithKey_charges[OF assms(7)])
  note gr = GetKeyS_granted[OF assms(6)]
  have o: "onlyResets (rotator s2) (rotator s3)"
    by (rule proxyWithKey_onlyResets[OF assms(7)])
  have len: "key < length (rotator s3)" using o gr(1) by (simp add: onlyResets_def)
  have u: "usageCount (rotator (fst (handleProxy E r s)) ! key) = usageCount (rotator s3 ! key) + 1"
    using len by (simp add: h ReportUsageS_def ReportUsage_usageCount)
  have nw: "sint (usageCount (rotator (fst (handleProxy E r s)) ! key))
      = sint (usageCount (rotator s3 ! key)) + 1"
    using charge_no_wrap[OF o gr(1) gr(2)] by (simp only: u)
  have a: "count_list (charges (ledger (fst (handleProxy E r s)))) key
           = count_list (charges (ledger s2)) key + 1"
    by (simp add: h c)
  have l: "last (ledger (fst (handleProxy E r s))) = Charged key"
    by (simp add: h)
  from h a l u len nw show ?thesis by (intro conjI impI)
qed

theorem first_key_charged_once_witness:
  "snd (handleProxy (mockEnv 0) (post ''model:gpt-4'') (NewServer exampleConfig T0))
     = Responded 200 ''Mock response for: claude-2''
   \<and> count_list (charges (ledger (fst (handleProxy (mockEnv 0) (post ''model:gpt-4'')
        (NewServer exampleConfig T0))))) 0 = 2
   \<and> last (ledger (fst (handleProxy (mockEnv 0) (post ''model:gpt-4'')
        (NewServer exampleConfig T0)))) = Charged 0
   \<and> sint (usageCount (rotator (fst (handleProxy (mockEnv 0) (post ''model:gpt-4'')
        (NewServer exampleConfig T0))) ! 0)) = 2"
proof -
  let ?s = "NewServer exampleConfig T0"
  let ?E = "mockEnv 0"
  let ?s1 = "fst (getTargetModel ?E ''gpt-4'' ?s)"
  let ?s2 = "fst (GetKeyS ''openai'' ?s1)"
  let ?w = "proxyWithKey ?E (post ''model:gpt-4'') gpt4Request (generateCacheKey ?E gpt4Request)
      ''gpt-4'' ''openai'' 0 ?s2"
  have b: "Body (post ''model:gpt-4'') = Some ''model:gpt-4''" by (simp add: post_def)
  have c: "\<not> HasPrefix ''model:gpt-4'' ''#roxy''" by (simp add: HasPrefix_def)
  have d: "json_Unmarshal ?E ''model:gpt-4'' = Some gpt4Request"
    by (simp add: mockEnv_def mockDecode_def HasPrefix_def gpt4Request_def)
  have m: "Get (clock ?s) (generateCacheKey ?E gpt4Request) (cache ?s) = None"
    by (simp add: Get_def NewServer_def New_def)
  have "snd (getTargetModel ?E ''gpt-4'' ?s) = Some (''gpt-4'', ''openai'')" by code_simp
  then have t: "getTargetModel ?E (Model gpt4Request) ?s = (?s1, Some (''gpt-4'', ''openai''))"
    by (simp add: prod_eq_iff gpt4Request_def)
  have "snd (GetKeyS ''openai'' ?s1) = Inr 0" by code_simp
  then have g: "GetKeyS ''openai'' ?s1 = (?s2, Inr 0)" by (simp add: prod_eq_iff)
  have w: "?w = (fst ?w, snd ?w)" by simp
  have o: "snd ?w = Responded 200 ''Mock response for: claude-2''" by code_simp
  have n: "count_list (charges (ledger ?s2)) 0 = 1" by code_simp
  note th = first_key_charged_once[OF b c d m t g w]
  have a1: "snd (handleProxy ?E (post ''model:gpt-4'') ?s) = Responded 200 ''Mock response for: claude-2''"
    using th[THEN conjunct1] o by simp
  have a2: "count_list (charges (ledger (fst (handleProxy ?E (post ''model:gpt-4'') ?s)))) 0 = 2"
    using th[THEN conjunct2, THEN conjunct1] by (simp only: n)
  have a3: "last (ledger (fst (handleProxy ?E (post ''model:gpt-4'') ?s))) = Charged 0"
    by (rule th[THEN conjunct2, THEN conjunct2, THEN conjunct1])
  have v: "sint (usageCount (rotator (fst ?w) ! 0)) = 1" by code_simp
  have a4: "sint (usageCount (rotator (fst (handleProxy ?E (post ''model:gpt-4'') ?s)) ! 0)) = 2"
    using th[THEN conjunct2, THEN conjunct2, THEN conjunct2, THEN conjunct2, THEN conjunct2]
    by (simp only: v)
  from a1 a2 a3 a4 show ?thesis by (intro conjI)
qed

section \<open>Facts about cache hits\<close>

lemma proxyWithKey_200:
  assumes "proxyWithKey E r req k tm pv key s = (s', Responded 200 b)"
  shows "entries (cache s') k = Some \<lparr>Data = b, ExpiresAt = clock s' + ttl (cache s')\<rparr>"
  using proxyWithKey_cases[OF assms]
proof (elim disjE exE conjE)
  fix code b' assume "Responded 200 b = Responded code b'" "code \<noteq> 200"
  then show ?thesis by simp
next
  fix s2 resp assume f: "finish k resp s2 = (s', Responded 200 b)"
  from finish_200[OF f] finish_frame[OF f] show ?thesis by simp
qed

lemma handleProxy_200:
  assumes "Body r = Some body" and "\<not> HasPrefix body ''#roxy''"
    and "json_Unmarshal E body = Some req"
    and "Get (clock s) (generateCacheKey E req) (cache s) = None"
    and "handleProxy E r s = (s', Responded 200 b)"
  shows "entries (cache s') (generateCacheKey E req)
           = Some \<lparr>Data = b, ExpiresAt = clock s' + ttl (cache s')\<rparr>"
proof -
  obtain s1 res where t: "getTargetModel E (Model req) s = (s1, res)"
    by (cases "getTargetModel E (Model req) s")
  show ?thesis
  proof (cases res)
    case None
    with assms t show ?thesis by (simp add: handleProxy_def)
  next
    case (Some a)
    obtain tm pv where a: "a = (tm, pv)" by (cases a)
    obtain s2 g where g: "GetKeyS pv s1 = (s2, g)" by (cases "GetKeyS pv s1")
    show ?thesis
    proof (cases g)
      case (Inl err)
      with assms t Some a g show ?thesis by (simp add: handleProxy_def http_Error_def)
    next
      case (Inr key)
      obtain s3 out where w: "proxyWithKey E r req (generateCacheKey E req) tm pv key s2 = (s3, out)"
        by (cases "proxyWithKey E r req (generateCacheKey E req) tm pv key s2")
      from handleProxy_granted[OF assms(1-4) t[unfolded Some a] g[unfolded Inr]] w assms(5)
      have e: "s' = ReportUsageS key 0 s3" "out = Responded 200 b" by simp_all
      from proxyWithKey_200[OF w[unfolded e(2)]] show ?thesis by (simp add: e(1))
    qed
  qed
qed

lemma handleCommand_cache: "cache (fst (handleCommand E body s)) = cache s"
  by (simp add: handleCommand_def handleAddCommand_def handleListCommand_def
      handleHelpCommand_def Let_def split: option.splits)

lemma finish_other:
  "finish k' resp s = (s', out) \<Longrightarrow> k \<noteq> k' \<Longrightarrow> entries (cache s') k = entries (cache s) k"
  by (auto simp add: finish_def Set_entry_def split: option.splits if_splits)

lemma proxyWithKey_other:
  assumes "proxyWithKey E r req k' tm pv key s = (s', out)" and "k \<noteq> k'"
  shows "entries (cache s') k = entries (cache s) k"
  using proxyWithKey_cases[OF assms(1)]
proof (elim disjE exE conjE)
  fix code b assume "sameBooks s s'"
  then show ?thesis by (simp add: sameBooks_def)
next
  fix s2 resp assume "sameBooks s s2" "finish k' resp s2 = (s', out)"
  with finish_other[of k' resp s2 s' out k] assms(2) show ?thesis by (simp add: sameBooks_def)
qed

lemma handleProxy_keeps_entry:
  assumes "entries (cache s) k = Some e" and "clock s \<le> ExpiresAt e"
  shows "entries (cache (fst (handleProxy E r s))) k = Some e"
proof (cases "Body r")
  case None
  then show ?thesis using assms by (simp add: handleProxy_def)
next
  case (Some body)
  show ?thesis
  proof (cases "HasPrefix body ''#roxy''")
    case True
    with Some assms show ?thesis by (simp add: handleProxy_def handleCommand_cache)
  next
    case False
    show ?thesis
    proof (cases "json_Unmarshal E body")
      case None
      with Some False assms show ?thesis by (simp add: handleProxy_def)
    next
      case (Some req)
      note q = Some
      show ?thesis
      proof (cases "Get (clock s) (generateCacheKey E req) (cache s)")
        case (Some cached)
        with \<open>Body r = Some body\<close> False q assms show ?thesis by (simp add: handleProxy_def)
      next
        case None
        have ne: "k \<noteq> generateCacheKey E req"
          using None assms by (auto simp add: Get_def After_def)
        obtain s1 res where t: "getTargetModel E (Model req) s = (s1, res)"
          by (cases "getTargetModel E (Model req) s")
        note ft = getTargetModel_frame[OF t]
        show ?thesis
        proof (cases res)
          case None
          with \<open>Body r = Some body\<close> False q \<open>Get (clock s) (generateCacheKey E req) (cache s) = None\<close>
            t ft assms
          show ?thesis by (simp add: handleProxy_def)
        next
          case (Some a)
          obtain tm pv where a: "a = (tm, pv)" by (cases a)
          obtain s2 g where g: "GetKeyS pv s1 = (s2, g)" by (cases "GetKeyS pv s1")
          have c2: "cache s2 = cache s" using GetKeyS_sameBooks[OF g] ft by (simp add: sameBooks_def)
          show ?thesis
          proof (cases g)
            case (Inl err)
            with \<open>Body r = Some body\<close> False q \<open>Get (clock s) (generateCacheKey E req) (cache s) = None\<close>
              t Some a g c2 assms
            show ?thesis by (simp add: handleProxy_def)
          next
            case (Inr key)
            obtain s3 out where w: "proxyWithKey E r req (generateCacheKey E req) tm pv key s2 = (s3, out)"
              by (cases "proxyWithKey E r req (generateCacheKey E req) tm pv key s2")
            from handleProxy_granted[OF \<open>Body r = Some body\<close> False q
                \<open>Get (clock s) (generateCacheKey E req) (cache s) = None\<close> t[unfolded Some a] g[unfolded Inr]] w
            have "fst (handleProxy E r s) = ReportUsageS key 0 s3" by simp
            with proxyWithKey_other[OF w ne] c2 assms show ?thesis by simp
          qed
        qed
      qed
    qed
  qed
qed

lemma serve_keeps_entry:
  "entries (cache s) k = Some e \<Longrightarrow> list_all (\<lambda>a. fst a \<le> ExpiresAt e) between \<Longrightarrow>
     entries (cache (serve E between s)) k = Some e"
proof (induction between arbitrary: s)
  case Nil
  then show ?case by simp
next
  case (Cons a between)
  have "entries (cache (fst (handleProxy E (snd a) (s\<lparr>clock := fst a\<rparr>)))) k = Some e"
    using Cons.prems by (intro handleProxy_keeps_entry) simp_all
  with Cons show ?case by simp
qed

text \<open>
  C6. Take a request that missed the cache and was answered 200, which the handler
  does only by forwarding an upstream response with status 200, and a second request
  with the same model, messages, max-tokens and temperature, arriving within the ttl
  of the moment the first response was stored; in between the server may handle any
  requests that arrive within that time. The second is answered 200 with the same
  bytes, and the server is left exactly as it was: nothing is sent upstream, no key
  is scanned, handed out or charged.
\<close>

theorem cache_hit_after_success:
  assumes "Body r1 = Some b1" and "\<not> HasPrefix b1 ''#roxy''"
    and "json_Unmarshal E b1 = Some q1"
    and "Body r2 = Some b2" and "\<not> HasPrefix b2 ''#roxy''"
    and "json_Unmarshal E b2 = Some q2"
    and "Model q2 = Model q1" and "Messages q2 = Messages q1"
    and "MaxTokens q2 = MaxTokens q1" and "Temperature q2 = Temperature q1"
    and "Get (clock s) (generateCacheKey E q1) (cache s) = None"
    and "handleProxy E r1 s = (s1, Responded 200 payload)"
    and "list_all (\<lambda>a. fst a \<le> clock s1 + ttl (cache s1)) between"
    and "t2 \<le> clock s1 + ttl (cache s1)"
  shows "handleProxy E r2 ((serve E between s1)\<lparr>clock := t2\<rparr>)
       = ((serve E between s1)\<lparr>clock := t2\<rparr>, Responded 200 payload)"
proof -
  let ?e = "\<lparr>Data = payload, ExpiresAt = clock s1 + ttl (cache s1)\<rparr>"
  have k: "generateCacheKey E q2 = generateCacheKey E q1"
    using assms(7-10) by (simp add: generateCacheKey_def hashInput_def)
  have e: "entries (cache s1) (generateCacheKey E q1) = Some ?e"
    by (rule handleProxy_200[OF assms(1-3) assms(11) assms(12)])
  have "entries (cache (serve E between s1)) (generateCacheKey E q1) = Some ?e"
    using e assms(13) by (intro serve_keeps_entry) simp_all
  then have "Get t2 (generateCacheKey E q2) (cache (serve E between s1)) = Some payload"
    using assms(14) by (simp add: k Get_def After_def)
  then show ?thesis
    using assms(4-6) by (simp add: handleProxy_def)
qed

theorem cache_hit_after_success_witness:
  "snd (handleProxy (mockEnv 1) (post ''model:gpt-4'') (NewServer exampleConfig T0))
     = Responded 200 ''Mock response for: gpt-4''
   \<and> handleProxy (mockEnv 1) ((post ''model:gpt-4'')\<lparr>Header := [(''X-Client'', ''other'')]\<rparr>)
        ((serve (mockEnv 1) [(T0 + 2 * Second, post ''model:claude-2'')]
            (fst (handleProxy (mockEnv 1) (post ''model:gpt-4'') (NewServer exampleConfig T0))))
           \<lparr>clock := T0 + Second + 5 * Minute\<rparr>)
     = ((serve (mockEnv 1) [(T0 + 2 * Second, post ''model:claude-2'')]
            (fst (handleProxy (mockEnv 1) (post ''model:gpt-4'') (NewServer exampleConfig T0))))
           \<lparr>clock := T0 + Second + 5 * Minute\<rparr>,
        Responded 200 ''Mock response for: gpt-4'')
   \<and> map Payload (sent (serve (mockEnv 1) [(T0 + 2 * Second, post ''model:claude-2'')]
        (fst (handleProxy (mockEnv 1) (post ''model:gpt-4'') (NewServer exampleConfig T0)))))
     = [''gpt-4'', ''claude-2'']"
proof -
  let ?s = "NewServer exampleConfig T0"
  let ?E = "mockEnv 1"
  let ?r2 = "(post ''model:gpt-4'')\<lparr>Header := [(''X-Client'', ''other'')]\<rparr>"
  let ?s1 = "fst (handleProxy ?E (post ''model:gpt-4'') ?s)"
  let ?between = "[(T0 + 2 * Second, post ''model:claude-2'')]"
  have b: "Body (post ''model:gpt-4'') = Some ''model:gpt-4''"
      "Body ?r2 = Some ''model:gpt-4''" by (simp_all add: post_def)
  have c: "\<not> HasPrefix ''model:gpt-4'' ''#roxy''" by (simp add: HasPrefix_def)
  have d: "json_Unmarshal ?E ''model:gpt-4'' = Some gpt4Request"
    by (simp add: mockEnv_def mockDecode_def HasPrefix_def gpt4Request_def)
  have m: "Get (clock ?s) (generateCacheKey ?E gpt4Request) (cache ?s) = None"
    by (simp add: Get_def NewServer_def New_def)
  have o: "snd (handleProxy ?E (post ''model:gpt-4'') ?s) = Responded 200 ''Mock response for: gpt-4''"
    by code_simp
  then have h: "handleProxy ?E (post ''model:gpt-4'') ?s = (?s1, Responded 200 ''Mock response for: gpt-4'')"
    by (simp add: prod_eq_iff)
  have ct: "clock ?s1 = T0 + Second" "ttl (cache ?s1) = 5 * Minute" by code_simp+
  have t: "T0 + Second + 5 * Minute \<le> clock ?s1 + ttl (cache ?s1)"
    unfolding ct by simp
  have l: "list_all (\<lambda>a. fst a \<le> clock ?s1 + ttl (cache ?s1)) ?between"
    unfolding ct by (simp add: Second_def Minute_def)
  have u: "map Payload (sent (serve ?E ?between ?s1)) = [''gpt-4'', ''claude-2'']"
    by code_simp
  from o cache_hit_after_success[OF b(1) c d b(2) c d refl refl refl refl m h l t] u
  show ?thesis by (intro conjI)
qed

section \<open>Facts about the fallback chain\<close>

text \<open>
  C1 on the code. The fallback chain is looked up under \<open>req.Model\<close> after it has been
  overwritten with the target model. With the rule \<open>gpt-4 \<rightarrow> [gpt-4-turbo, claude-2]\<close>
  and an OpenAI upstream that is rate limited, the request for \<open>gpt-4\<close> is sent once,
  for \<open>gpt-4-turbo\<close>; no rule has \<open>gpt-4-turbo\<close> as its source, so \<open>claude-2\<close> is never
  tried, the caller gets the 429, the Anthropic key is never acquired and nothing
  is cached.
\<close>

theorem fallback_chain_not_entered:
  "snd (handleProxy (mockEnv 0) (post ''model:gpt-4'') (NewServer turboFirst T0))
     = Responded 429 ''Rate limit exceeded''
   \<and> map Payload (sent (fst (handleProxy (mockEnv 0) (post ''model:gpt-4'')
        (NewServer turboFirst T0)))) = [''gpt-4-turbo'']
   \<and> ledger (fst (handleProxy (mockEnv 0) (post ''model:gpt-4'') (NewServer turboFirst T0)))
     = [Granted 0, Charged 0, Granted 0, Charged 0]
   \<and> Get (T0 + Second) (generateCacheKey (mockEnv 0) gpt4Request)
        (cache (fst (handleProxy (mockEnv 0) (post ''model:gpt-4'') (NewServer turboFirst T0))))
     = None"
  by code_simp

text \<open>
  With the rule of the example configuration, \<open>gpt-4 \<rightarrow> [gpt-4, claude-2]\<close>, where the
  first target is the source model, the same request does fall back: the second
  call is for \<open>claude-2\<close> with the Anthropic key, its answer goes to the caller and is
  cached under the key of the request as it came in.
\<close>

lemma fallback_chain_entered:
  "snd (handleProxy (mockEnv 0) (post ''model:gpt-4'') (NewServer exampleConfig T0))
     = Responded 200 ''Mock response for: claude-2''
   \<and> map Payload (sent (fst (handleProxy (mockEnv 0) (post ''model:gpt-4'')
        (NewServer exampleConfig T0)))) = [''gpt-4'', ''claude-2'']
   \<and> map Auth (sent (fst (handleProxy (mockEnv 0) (post ''model:gpt-4'')
        (NewServer exampleConfig T0))))
     = [Some (''Authorization'', ''Bearer sk-openai-1''), Some (''X-Api-Key'', ''sk-anthropic-1'')]
   \<and> Get (T0 + 2 * Second) (generateCacheKey (mockEnv 0) gpt4Request)
        (cache (fst (handleProxy (mockEnv 0) (post ''model:gpt-4'') (NewServer exampleConfig T0))))
     = Some ''Mock response for: claude-2''"
  by code_simp

end
